theory Spec2Isabelle
  imports Complex_Main "HOL-Library.Sublist" "HOL-Library.List_Lexorder" "HOL-Library.Char_ord"
begin

section \<open>Strings\<close>

text \<open>
  The paper browser works on JavaScript strings. They are modelled as \<open>string\<close>
  (lists of 8-bit characters), which covers ASCII text: \<open>toLowerCase\<close> folds the
  letters A to Z, \<open>trim\<close> strips the ASCII white space characters (tab, line feed,
  vertical tab, form feed, carriage return, space). Characters outside ASCII are
  left alone by both.
\<close>

definition isUpper :: "char \<Rightarrow> bool" where
  "isUpper c = (65 \<le> (of_char c :: nat) \<and> (of_char c :: nat) \<le> 90)"

definition lowerChar :: "char \<Rightarrow> char" where
  "lowerChar c = (if isUpper c then char_of (of_char c + (32::nat)) else c)"

definition toLowerCase :: "string \<Rightarrow> string" where
  "toLowerCase s = map lowerChar s"

definition isWhiteSpace :: "char \<Rightarrow> bool" where
  "isWhiteSpace c = ((9 \<le> (of_char c :: nat) \<and> (of_char c :: nat) \<le> 13) \<or> (of_char c :: nat) = 32)"

definition trim :: "string \<Rightarrow> string" where
  "trim s = rev (dropWhile isWhiteSpace (rev (dropWhile isWhiteSpace s)))"

text \<open>\<open>s.startsWith(p)\<close>, used to locate a substring or a delimiter at a position.\<close>

fun startsWith :: "string \<Rightarrow> string \<Rightarrow> bool" where
  "startsWith s [] = True"
| "startsWith [] (p # ps) = False"
| "startsWith (c # cs) (p # ps) = (c = p \<and> startsWith cs ps)"

text \<open>\<open>s.includes(q)\<close>: \<open>q\<close> occurs in \<open>s\<close> at some position.\<close>

fun includes_str :: "string \<Rightarrow> string \<Rightarrow> bool" where
  "includes_str [] q = (q = [])"
| "includes_str (c # cs) q = (startsWith (c # cs) q \<or> includes_str cs q)"

text \<open>
  \<open>s.split(sep)\<close> for a one-character separator. The result is never empty:
  \<open>''''.split(';')\<close> is the list holding the empty string.
\<close>

fun split_str :: "char \<Rightarrow> string \<Rightarrow> string list" where
  "split_str sep [] = [[]]"
| "split_str sep (c # cs) =
     (if c = sep then [] # split_str sep cs
      else (case split_str sep cs of
              [] \<Rightarrow> [[c]]
            | w # ws \<Rightarrow> (c # w) # ws))"

section \<open>JavaScript Set of strings\<close>

text \<open>
  A \<open>Set<string>\<close> keeps its members in insertion order without duplicates. It is a
  list here; \<open>add\<close> appends a new member and leaves the set alone when the member is
  there already, \<open>delete\<close> removes the member.
\<close>

definition set_has :: "string list \<Rightarrow> string \<Rightarrow> bool" where
  "set_has xs x = (x \<in> set xs)"

definition set_add :: "string list \<Rightarrow> string \<Rightarrow> string list" where
  "set_add xs x = (if set_has xs x then xs else xs @ [x])"

definition set_delete :: "string list \<Rightarrow> string \<Rightarrow> string list" where
  "set_delete xs x = filter (\<lambda>y. y \<noteq> x) xs"

section \<open>Data model\<close>

record Paper =
  venue :: string
  year :: int
  title :: string
  title_en :: string
  abstract :: string
  abstract_en :: string
  keywords_of :: string
  authors :: string
  github_links :: string
  pdf_download_url :: string
  openreview_forum_url :: string
  venue_id :: string

text \<open>
  The year drop-down binds \<open>selectedYear\<close> to the string \<open>'all'\<close> or to one of the
  years of the collection; \<open>parseInt\<close> of a year gives that year back.
\<close>

datatype year_sel = AllYears | Year int

text \<open>The reactive variables of the component (the \<open>ref\<close>s of the script).\<close>

record app_state =
  allPapers :: "Paper list"
  searchQuery :: string
  selectedYear :: year_sel
  selectedVenue :: string
  selectedTags :: "string list"
  excludedTags :: "string list"
  showOnlyWithCode :: bool
  currentPage :: int
  papersPerPage :: int
  inputPage :: string

text \<open>The values the script gives the variables when the component is set up.\<close>

definition init_state :: app_state where
  "init_state =
     \<lparr>allPapers = [], searchQuery = [], selectedYear = AllYears, selectedVenue = ''all'',
      selectedTags = [], excludedTags = [], showOnlyWithCode = False,
      currentPage = 1, papersPerPage = 50, inputPage = []\<rparr>"

section \<open>Tag toggle\<close>

definition toggleTagFilter :: "string \<Rightarrow> app_state \<Rightarrow> app_state" where
  "toggleTagFilter tag s =
     (if set_has (selectedTags s) tag then
        s\<lparr>selectedTags := set_delete (selectedTags s) tag,
          excludedTags := set_add (excludedTags s) tag\<rparr>
      else if set_has (excludedTags s) tag then
        s\<lparr>excludedTags := set_delete (excludedTags s) tag\<rparr>
      else
        s\<lparr>selectedTags := set_add (selectedTags s) tag\<rparr>)"

section \<open>Filter engine\<close>

text \<open>
  \<open>filteredPapers\<close> is \<open>allPapers.filter(callback)\<close>; \<open>filterCallback\<close> is the
  callback, with the local constants of the source as \<open>let\<close> bindings.
\<close>

definition filterCallback :: "app_state \<Rightarrow> Paper \<Rightarrow> bool" where
  "filterCallback s paper =
     (let query = trim (toLowerCase (searchQuery s));
          matchesSearch = (query = [] \<or>
             (includes_str (toLowerCase (title paper)) query \<or>
              includes_str (toLowerCase (authors paper)) query \<or>
              includes_str (toLowerCase (abstract paper)) query \<or>
              includes_str (toLowerCase (keywords_of paper)) query \<or>
              includes_str (toLowerCase (venue paper)) query));
          matchesYear = (case selectedYear s of AllYears \<Rightarrow> True | Year y \<Rightarrow> year paper = y);
          matchesVenue = (selectedVenue s = ''all'' \<or> venue paper = selectedVenue s);
          paperTags = map (\<lambda>k. toLowerCase (trim k)) (split_str CHR '';'' (keywords_of paper));
          processedSelectedTags = map toLowerCase (selectedTags s);
          processedExcludedTags = map toLowerCase (excludedTags s);
          hasAllIncludedTags = list_all (\<lambda>tag. tag \<in> set paperTags) processedSelectedTags;
          hasNoExcludedTags = (\<not> list_ex (\<lambda>tag. tag \<in> set paperTags) processedExcludedTags);
          hasCode = (\<not> showOnlyWithCode s \<or> trim (github_links paper) \<noteq> [])
      in matchesSearch \<and> matchesYear \<and> matchesVenue \<and> hasAllIncludedTags
         \<and> hasNoExcludedTags \<and> hasCode)"

definition filteredPapers :: "app_state \<Rightarrow> Paper list" where
  "filteredPapers s = filter (filterCallback s) (allPapers s)"

text \<open>
  The filter contract in the words of the specification, for comparison with the
  callback: the query itself (not trimmed) is empty or a case-insensitive substring
  of one of the five fields, and so on for the other five conditions.
\<close>

definition ci_substring :: "string \<Rightarrow> string \<Rightarrow> bool" where
  "ci_substring q field = includes_str (toLowerCase field) (toLowerCase q)"

definition tag_set :: "Paper \<Rightarrow> string set" where
  "tag_set paper = set (map trim (split_str CHR '';'' (keywords_of paper)))"

definition ci_member :: "string \<Rightarrow> string set \<Rightarrow> bool" where
  "ci_member tag T = (toLowerCase tag \<in> toLowerCase ` T)"

definition spec_matches_rest :: "app_state \<Rightarrow> Paper \<Rightarrow> bool" where
  "spec_matches_rest s paper =
     ((selectedYear s = AllYears \<or> selectedYear s = Year (year paper))
      \<and> (selectedVenue s = ''all'' \<or> selectedVenue s = venue paper)
      \<and> list_all (\<lambda>tag. ci_member tag (tag_set paper)) (selectedTags s)
      \<and> list_all (\<lambda>tag. \<not> ci_member tag (tag_set paper)) (excludedTags s)
      \<and> (showOnlyWithCode s = False \<or> trim (github_links paper) \<noteq> []))"

definition spec_text_match :: "string \<Rightarrow> Paper \<Rightarrow> bool" where
  "spec_text_match q paper =
     (q = [] \<or> ci_substring q (title paper) \<or> ci_substring q (authors paper)
      \<or> ci_substring q (abstract paper) \<or> ci_substring q (keywords_of paper)
      \<or> ci_substring q (venue paper))"

definition spec_matches :: "app_state \<Rightarrow> Paper \<Rightarrow> bool" where
  "spec_matches s paper = (spec_text_match (searchQuery s) paper \<and> spec_matches_rest s paper)"

definition spec_matches_trimmed :: "app_state \<Rightarrow> Paper \<Rightarrow> bool" where
  "spec_matches_trimmed s paper =
     (spec_text_match (trim (searchQuery s)) paper \<and> spec_matches_rest s paper)"

section \<open>Paginator\<close>

text \<open>
  JavaScript numbers that the pagination code can produce: a division by a page
  size of zero gives \<open>Infinity\<close> or \<open>NaN\<close>, every other value is an integer here.
\<close>

datatype jsnum = Num int | PosInfinity | NaN

text \<open>\<open>Math.ceil(len / psize)\<close> for integers \<open>len \<ge> 0\<close> and \<open>psize\<close>.\<close>

definition math_ceil_div :: "int \<Rightarrow> int \<Rightarrow> jsnum" where
  "math_ceil_div len psize =
     (if psize = 0 then (if len = 0 then NaN else PosInfinity)
      else Num (- ((- len) div psize)))"

fun js_le :: "int \<Rightarrow> jsnum \<Rightarrow> bool" where
  "js_le a (Num b) = (a \<le> b)"
| "js_le a PosInfinity = True"
| "js_le a NaN = False"

fun js_lt :: "int \<Rightarrow> jsnum \<Rightarrow> bool" where
  "js_lt a (Num b) = (a < b)"
| "js_lt a PosInfinity = True"
| "js_lt a NaN = False"

text \<open>
  \<open>xs.slice(start, end)\<close>: a negative index counts from the end, indices are cut
  to the range of the array, and an empty range gives the empty array.
\<close>

definition js_slice :: "'a list \<Rightarrow> int \<Rightarrow> int \<Rightarrow> 'a list" where
  "js_slice xs start endIdx =
     (let len = int (length xs);
          k = (if start < 0 then max (len + start) 0 else min start len);
          final = (if endIdx < 0 then max (len + endIdx) 0 else min endIdx len)
      in take (nat (final - k)) (drop (nat k) xs))"

definition paginatedPapers :: "app_state \<Rightarrow> Paper list" where
  "paginatedPapers s =
     (let startIndex = (currentPage s - 1) * papersPerPage s;
          endIndex = startIndex + papersPerPage s
      in js_slice (filteredPapers s) startIndex endIndex)"

definition totalPages :: "app_state \<Rightarrow> jsnum" where
  "totalPages s = math_ceil_div (int (length (filteredPapers s))) (papersPerPage s)"

text \<open>
  \<open>parseInt\<close> without a radix: leading white space is skipped, then an optional
  sign, then an optional \<open>0x\<close> prefix (hexadecimal), then the longest run of digits;
  no digit at all gives \<open>NaN\<close>, which is \<open>None\<close> here.
\<close>

definition digitValue :: "char \<Rightarrow> nat option" where
  "digitValue c =
     (let n = (of_char c :: nat) in
      if 48 \<le> n \<and> n \<le> 57 then Some (n - 48)
      else if 97 \<le> n \<and> n \<le> 122 then Some (n - 87)
      else if 65 \<le> n \<and> n \<le> 90 then Some (n - 55)
      else None)"

fun parseDigits :: "nat \<Rightarrow> string \<Rightarrow> nat option \<Rightarrow> nat option" where
  "parseDigits radix [] acc = acc"
| "parseDigits radix (c # cs) acc =
     (case digitValue c of
        None \<Rightarrow> acc
      | Some d \<Rightarrow>
          if d < radix
          then parseDigits radix cs (Some ((case acc of None \<Rightarrow> 0 | Some a \<Rightarrow> a) * radix + d))
          else acc)"

definition parseUnsigned :: "string \<Rightarrow> nat option" where
  "parseUnsigned s =
     (if startsWith s ''0x'' \<or> startsWith s ''0X''
      then parseDigits 16 (drop 2 s) None
      else parseDigits 10 s None)"

definition parseInt :: "string \<Rightarrow> int option" where
  "parseInt str =
     (let s = dropWhile isWhiteSpace str in
      case s of
        [] \<Rightarrow> None
      | c # cs \<Rightarrow>
          if c = CHR ''-'' then map_option (\<lambda>n. - int n) (parseUnsigned cs)
          else if c = CHR ''+'' then map_option int (parseUnsigned cs)
          else map_option int (parseUnsigned s))"

text \<open>
  The navigation functions. Scrolling the window to the top and the alert shown by
  \<open>goToInputPage\<close> do not change any variable of the component and are left out.
\<close>

definition goToPage :: "int \<Rightarrow> app_state \<Rightarrow> app_state" where
  "goToPage page s =
     (if page \<ge> 1 \<and> js_le page (totalPages s) then s\<lparr>currentPage := page\<rparr> else s)"

definition prevPage :: "app_state \<Rightarrow> app_state" where
  "prevPage s = (if currentPage s > 1 then s\<lparr>currentPage := currentPage s - 1\<rparr> else s)"

definition nextPage :: "app_state \<Rightarrow> app_state" where
  "nextPage s =
     (if js_lt (currentPage s) (totalPages s) then s\<lparr>currentPage := currentPage s + 1\<rparr> else s)"

definition changePapersPerPage :: "int \<Rightarrow> app_state \<Rightarrow> app_state" where
  "changePapersPerPage count s = s\<lparr>papersPerPage := count, currentPage := 1\<rparr>"

definition goToInputPage :: "app_state \<Rightarrow> app_state" where
  "goToInputPage s =
     (case parseInt (inputPage s) of
        None \<Rightarrow> s\<lparr>inputPage := []\<rparr>
      | Some pageNumber \<Rightarrow>
          if pageNumber \<ge> 1 \<and> js_le pageNumber (totalPages s)
          then s\<lparr>currentPage := pageNumber, inputPage := []\<rparr>
          else s\<lparr>inputPage := []\<rparr>)"

text \<open>
  The page count in the words of the specification, for comparison with
  \<open>totalPages\<close>.
\<close>

definition spec_totalPages :: "int \<Rightarrow> int \<Rightarrow> int" where
  "spec_totalPages L P = max 1 \<lceil>real_of_int L / real_of_int P\<rceil>"

section \<open>Dataset loader\<close>

text \<open>
  What the two \<open>fetch\<close> and \<open>json\<close> calls can give: a rejected fetch, a body that is
  not JSON, or a parsed document. A parsed document is an object whose
  \<open>papers_by_venue_year\<close> holds venues, years and paper lists (in the order in which
  \<open>for ... in\<close> enumerates the keys; a year key is an integer, so \<open>parseInt\<close> of the key
  finds the entry it came from), an array of papers, \<open>null\<close>, or any other JSON value
  (which has no \<open>papers_by_venue_year\<close> and is not an array).
\<close>

datatype load_error = FetchError | ParseError | TypeError

datatype json_doc =
    VenueYearDoc "(string \<times> (int \<times> Paper list) list) list"
  | PaperArray "Paper list"
  | JsonNull
  | JsonOther

datatype log_entry = TotalLoaded nat | LoadFailed load_error

text \<open>Processing of the first document; reading a property of \<open>null\<close> throws.\<close>

definition processFirst :: "json_doc \<Rightarrow> Paper list \<Rightarrow> load_error + Paper list" where
  "processFirst papersData1 papers =
     (case papersData1 of
        JsonNull \<Rightarrow> Inl TypeError
      | VenueYearDoc byVenueYear \<Rightarrow>
          Inr (fold (\<lambda>(venue, venueData) acc.
                 fold (\<lambda>(year, yearPapers) acc'. acc' @ yearPapers) venueData acc)
               byVenueYear papers)
      | PaperArray ps \<Rightarrow> Inr papers
      | JsonOther \<Rightarrow> Inr papers)"

definition processSecond :: "json_doc \<Rightarrow> Paper list \<Rightarrow> Paper list" where
  "processSecond papersData2 papers =
     (case papersData2 of PaperArray ps \<Rightarrow> papers @ ps | _ \<Rightarrow> papers)"

text \<open>
  The body of the \<open>try\<close> block: the collection as it stands when the block is left,
  and the exception that left it, if any.
\<close>

definition loadBody ::
  "(load_error + json_doc) \<Rightarrow> (load_error + json_doc) \<Rightarrow> Paper list
     \<Rightarrow> Paper list \<times> load_error option" where
  "loadBody response1 response2 papers =
     (case response1 of
        Inl e \<Rightarrow> (papers, Some e)
      | Inr papersData1 \<Rightarrow>
          (case processFirst papersData1 papers of
             Inl e \<Rightarrow> (papers, Some e)
           | Inr papers1 \<Rightarrow>
               (case response2 of
                  Inl e \<Rightarrow> (papers1, Some e)
                | Inr papersData2 \<Rightarrow> (processSecond papersData2 papers1, None))))"

text \<open>The loader: the \<open>try\<close> block, and the \<open>catch\<close> that logs the exception.\<close>

definition loadPapersData ::
  "(load_error + json_doc) \<Rightarrow> (load_error + json_doc) \<Rightarrow> app_state
     \<Rightarrow> app_state \<times> log_entry list" where
  "loadPapersData response1 response2 s =
     (case loadBody response1 response2 (allPapers s) of
        (papers, None) \<Rightarrow> (s\<lparr>allPapers := papers\<rparr>, [TotalLoaded (length papers)])
      | (papers, Some e) \<Rightarrow> (s\<lparr>allPapers := papers\<rparr>, [LoadFailed e]))"

section \<open>Filter changes and the page reset\<close>

definition clearSearch :: "app_state \<Rightarrow> app_state" where
  "clearSearch s = s\<lparr>searchQuery := []\<rparr>"

definition clearAllFilters :: "app_state \<Rightarrow> app_state" where
  "clearAllFilters s =
     s\<lparr>searchQuery := [], selectedYear := AllYears, selectedVenue := ''all'',
       selectedTags := [], excludedTags := []\<rparr>"

definition toggleShowOnlyWithCode :: "app_state \<Rightarrow> app_state" where
  "toggleShowOnlyWithCode s = s\<lparr>showOnlyWithCode := \<not> showOnlyWithCode s\<rparr>"

text \<open>
  The user actions that the template binds to the variables above: the search box
  and the suggestion list, the two drop-downs and their remove buttons, the tag
  chips and their remove buttons, the code-only switch, the clear buttons, the
  pagination bar.
\<close>

datatype event =
    SetSearchQuery string
  | ClearSearch
  | SetSelectedYear year_sel
  | SetSelectedVenue string
  | ToggleTagFilter string
  | DeleteSelectedTag string
  | DeleteExcludedTag string
  | ToggleShowOnlyWithCode
  | ClearAllFilters
  | GoToPage int
  | PrevPage
  | NextPage
  | ChangePapersPerPage int
  | SetInputPage string
  | GoToInputPage

fun handler :: "event \<Rightarrow> app_state \<Rightarrow> app_state" where
  "handler (SetSearchQuery q) s = s\<lparr>searchQuery := q\<rparr>"
| "handler ClearSearch s = clearSearch s"
| "handler (SetSelectedYear y) s = s\<lparr>selectedYear := y\<rparr>"
| "handler (SetSelectedVenue v) s = s\<lparr>selectedVenue := v\<rparr>"
| "handler (ToggleTagFilter tag) s = toggleTagFilter tag s"
| "handler (DeleteSelectedTag tag) s = s\<lparr>selectedTags := set_delete (selectedTags s) tag\<rparr>"
| "handler (DeleteExcludedTag tag) s = s\<lparr>excludedTags := set_delete (excludedTags s) tag\<rparr>"
| "handler ToggleShowOnlyWithCode s = toggleShowOnlyWithCode s"
| "handler ClearAllFilters s = clearAllFilters s"
| "handler (GoToPage page) s = goToPage page s"
| "handler PrevPage s = prevPage s"
| "handler NextPage s = nextPage s"
| "handler (ChangePapersPerPage n) s = changePapersPerPage n s"
| "handler (SetInputPage str) s = s\<lparr>inputPage := str\<rparr>"
| "handler GoToInputPage s = goToInputPage s"

text \<open>
  The body of the \<open>watchEffect\<close>: it reads \<open>filteredPapers\<close> and sets the page to 1.
\<close>

definition watchEffect :: "app_state \<Rightarrow> app_state" where
  "watchEffect s = s\<lparr>currentPage := 1\<rparr>"

text \<open>
  The effect runs again when a variable that its last run read has changed. The run
  reads \<open>filteredPapers\<close>, whose evaluation reads \<open>allPapers\<close> and, in the callback (that
  is, once for every paper, so not at all for an empty collection), the six filter
  variables. It does not read \<open>currentPage\<close> or \<open>papersPerPage\<close>.
\<close>

definition filter_inputs ::
  "app_state \<Rightarrow> string \<times> year_sel \<times> string \<times> string list \<times> string list \<times> bool" where
  "filter_inputs s =
     (searchQuery s, selectedYear s, selectedVenue s, selectedTags s, excludedTags s,
      showOnlyWithCode s)"

definition watch_triggered :: "app_state \<Rightarrow> app_state \<Rightarrow> bool" where
  "watch_triggered before after =
     (allPapers after \<noteq> allPapers before
      \<or> (allPapers before \<noteq> [] \<and> filter_inputs after \<noteq> filter_inputs before))"

definition flush :: "app_state \<Rightarrow> app_state \<Rightarrow> app_state" where
  "flush before after = (if watch_triggered before after then watchEffect after else after)"

text \<open>One user action: its handler, then the pending effect, then the next render.\<close>

definition dispatch :: "event \<Rightarrow> app_state \<Rightarrow> app_state" where
  "dispatch e s = flush s (handler e s)"

text \<open>
  The states the component can be in: it is set up, the user acts, and the loader
  (started from \<open>onMounted\<close>) stores papers. Every assignment of the loader to
  \<open>allPapers\<close> stores a new array and so runs the effect again; a loader that fails
  before its first assignment leaves the state as it is.
\<close>

inductive reachable :: "app_state \<Rightarrow> bool" where
  reach_init: "reachable init_state"
| reach_load: "reachable s \<Longrightarrow>
            reachable (watchEffect (fst (loadPapersData response1 response2 s)))"
| reach_action: "reachable s \<Longrightarrow> reachable (dispatch e s)"

text \<open>
  The current page is 1, or it lies between 1 and the page count.
\<close>

definition page_inv :: "app_state \<Rightarrow> bool" where
  "page_inv s =
     (currentPage s = 1 \<or> (1 \<le> currentPage s \<and> js_le (currentPage s) (totalPages s)))"

section \<open>Tag counts\<close>

text \<open>
  A \<open>Map<string, number>\<close> keeps its entries in the order in which the keys were
  first set; setting a key that is there replaces its value in place.
\<close>

fun map_set :: "(string \<times> nat) list \<Rightarrow> string \<Rightarrow> nat \<Rightarrow> (string \<times> nat) list" where
  "map_set [] k v = [(k, v)]"
| "map_set ((k', v') # m) k v = (if k' = k then (k, v) # m else (k', v') # map_set m k v)"

definition map_get_or_0 :: "(string \<times> nat) list \<Rightarrow> string \<Rightarrow> nat" where
  "map_get_or_0 m k = (case map_of m k of None \<Rightarrow> 0 | Some n \<Rightarrow> n)"

definition countKeyword :: "string \<Rightarrow> (string \<times> nat) list \<Rightarrow> (string \<times> nat) list" where
  "countKeyword keyword tagCountMap =
     (let trimmedKeyword = toLowerCase (trim keyword) in
      if trimmedKeyword \<noteq> []
      then map_set tagCountMap trimmedKeyword (map_get_or_0 tagCountMap trimmedKeyword + 1)
      else tagCountMap)"

definition tagCountMap :: "Paper list \<Rightarrow> (string \<times> nat) list" where
  "tagCountMap papers =
     fold (\<lambda>paper m. fold countKeyword (split_str CHR '';'' (keywords_of paper)) m) papers []"

text \<open>
  The comparator given to \<open>sort\<close>. \<open>localeCompare\<close> belongs to the platform and
  depends on its locale, so it is a parameter: a negative result puts the first tag
  first.
\<close>

definition compareTags ::
  "(string \<Rightarrow> string \<Rightarrow> int) \<Rightarrow> string \<times> nat \<Rightarrow> string \<times> nat \<Rightarrow> int" where
  "compareTags localeCompare a b =
     (if snd b \<noteq> snd a then int (snd b) - int (snd a)
      else localeCompare (fst a) (fst b))"

text \<open>
  \<open>Array.prototype.sort\<close> is stable; it is an insertion sort here, which puts \<open>a\<close>
  before \<open>b\<close> when the comparator is negative and keeps the order of entries that
  compare equal.
\<close>

fun insert_by :: "('a \<Rightarrow> 'a \<Rightarrow> int) \<Rightarrow> 'a \<Rightarrow> 'a list \<Rightarrow> 'a list" where
  "insert_by cmp x [] = [x]"
| "insert_by cmp x (y # ys) = (if cmp x y \<le> 0 then x # y # ys else y # insert_by cmp x ys)"

definition sort_by :: "('a \<Rightarrow> 'a \<Rightarrow> int) \<Rightarrow> 'a list \<Rightarrow> 'a list" where
  "sort_by cmp xs = foldr (insert_by cmp) xs []"

definition tagsWithCounts :: "(string \<Rightarrow> string \<Rightarrow> int) \<Rightarrow> Paper list \<Rightarrow> (string \<times> nat) list" where
  "tagsWithCounts localeCompare papers =
     take 50 (sort_by (compareTags localeCompare) (tagCountMap papers))"

section \<open>Search suggestions\<close>

definition suggestPiece :: "string \<Rightarrow> string \<Rightarrow> string list \<Rightarrow> string list" where
  "suggestPiece query piece suggestions =
     (let trimmedPiece = toLowerCase (trim piece) in
      if includes_str trimmedPiece query then set_add suggestions (trim piece)
      else suggestions)"

definition suggestPaper :: "string \<Rightarrow> Paper \<Rightarrow> string list \<Rightarrow> string list" where
  "suggestPaper query paper suggestions =
     (let s1 = (if includes_str (toLowerCase (title paper)) query
                then set_add suggestions (title paper) else suggestions);
          s2 = fold (suggestPiece query) (split_str CHR '','' (authors paper)) s1
      in fold (suggestPiece query) (split_str CHR '';'' (keywords_of paper)) s2)"

definition searchSuggestions :: "app_state \<Rightarrow> string list" where
  "searchSuggestions s =
     (let query = trim (toLowerCase (searchQuery s)) in
      if query = [] then []
      else take 5 (fold (suggestPaper query) (allPapers s) []))"

section \<open>Formula rendering\<close>

text \<open>
  The renderer of the formula library: the formula and the display-mode flag go in,
  markup comes out, and \<open>None\<close> stands for an exception thrown by the library.
\<close>

type_synonym katex = "string \<Rightarrow> bool \<Rightarrow> string option"

datatype delimiter = DollarDollar | Bracket | Dollar | Paren

definition backslash :: char where
  "backslash = CHR 0x5C"

fun openDelim :: "delimiter \<Rightarrow> string" where
  "openDelim DollarDollar = ''$$''"
| "openDelim Bracket = [backslash, CHR ''['']"
| "openDelim Dollar = ''$''"
| "openDelim Paren = [backslash, CHR ''('']"

fun closeDelim :: "delimiter \<Rightarrow> string" where
  "closeDelim DollarDollar = ''$$''"
| "closeDelim Bracket = [backslash, CHR '']'']"
| "closeDelim Dollar = ''$''"
| "closeDelim Paren = [backslash, CHR '')'']"

fun displayMode :: "delimiter \<Rightarrow> bool" where
  "displayMode DollarDollar = True"
| "displayMode Bracket = True"
| "displayMode Dollar = False"
| "displayMode Paren = False"

text \<open>
  The lazy group \<open>(.*?)\<close> followed by the closing delimiter: the text up to the
  first place where the closing delimiter stands, and the text after it.
\<close>

fun findClose :: "string \<Rightarrow> string \<Rightarrow> (string \<times> string) option" where
  "findClose cl [] = (if cl = [] then Some ([], []) else None)"
| "findClose cl (c # cs) =
     (if startsWith (c # cs) cl then Some ([], drop (length cl) (c # cs))
      else (case findClose cl cs of
              None \<Rightarrow> None
            | Some (formula, rest) \<Rightarrow> Some (c # formula, rest)))"

text \<open>
  The replacement callback: the rendered markup, or the matched text when the
  renderer throws.
\<close>

definition renderMatch :: "katex \<Rightarrow> delimiter \<Rightarrow> string \<Rightarrow> string" where
  "renderMatch k d formula =
     (case k formula (displayMode d) of
        Some markup \<Rightarrow> markup
      | None \<Rightarrow> openDelim d @ formula @ closeDelim d)"

text \<open>
  One \<open>replace\<close> with a global regular expression: the leftmost match is replaced,
  and the search goes on behind it. The second component lists the calls of the
  renderer, in order.
\<close>

function replaceAll :: "delimiter \<Rightarrow> katex \<Rightarrow> string \<Rightarrow> string \<times> (string \<times> bool) list" where
  "replaceAll d k [] = ([], [])"
| "replaceAll d k (c # cs) =
     (if startsWith (c # cs) (openDelim d) then
        (case findClose (closeDelim d) (drop (length (openDelim d)) (c # cs)) of
           Some (formula, rest) \<Rightarrow>
             (case replaceAll d k rest of
                (out, calls) \<Rightarrow> (renderMatch k d formula @ out, (formula, displayMode d) # calls))
         | None \<Rightarrow>
             (case replaceAll d k cs of (out, calls) \<Rightarrow> (c # out, calls)))
      else (case replaceAll d k cs of (out, calls) \<Rightarrow> (c # out, calls)))"
  by pat_completeness auto
termination
proof (relation "measure (\<lambda>(d, k, s). length s)")
  show "wf (measure (\<lambda>(d, k, s). length s))" by simp
next
  fix d :: delimiter and k :: katex and c cs x2 x y
  assume "findClose (closeDelim d) (drop (length (openDelim d)) (c # cs)) = Some x2"
    and "(x, y) = x2"
  then have fc: "findClose (closeDelim d) (drop (length (openDelim d)) (c # cs)) = Some (x, y)"
    by simp
  have len: "findClose cl s = Some (f, r) \<Longrightarrow> length r \<le> length s" for cl s f r
  proof (induction s arbitrary: f)
    case Nil
    then show ?case by (simp split: if_splits)
  next
    case (Cons a s)
    then show ?case
      by (auto split: if_splits option.splits)
  qed
  have "length (openDelim d) > 0" by (cases d) simp_all
  then have "length (drop (length (openDelim d)) (c # cs)) < length (c # cs)" by simp
  with len [OF fc] show "((d, k, y), d, k, c # cs) \<in> measure (\<lambda>(d, k, s). length s)"
    by simp
qed simp_all

definition renderLatex :: "katex \<Rightarrow> string option \<Rightarrow> string \<times> (string \<times> bool) list" where
  "renderLatex k text =
     (case text of
        None \<Rightarrow> ([], [])
      | Some t \<Rightarrow>
          if t = [] then ([], [])
          else
            (case replaceAll DollarDollar k t of (t1, calls1) \<Rightarrow>
             case replaceAll Bracket k t1 of (t2, calls2) \<Rightarrow>
             case replaceAll Dollar k t2 of (t3, calls3) \<Rightarrow>
             case replaceAll Paren k t3 of (t4, calls4) \<Rightarrow>
               (t4, calls1 @ calls2 @ calls3 @ calls4)))"

section \<open>The contracts in the words of the specification\<close>

text \<open>
  The entries that one paper offers for a query, in the order of the scan: the
  title, then the trimmed author names, then the trimmed keywords.
\<close>

definition matching :: "string \<Rightarrow> char \<Rightarrow> string \<Rightarrow> string list" where
  "matching query sep str =
     map trim (filter (\<lambda>piece. includes_str (toLowerCase (trim piece)) query) (split_str sep str))"

definition candidates :: "string \<Rightarrow> Paper \<Rightarrow> string list" where
  "candidates query paper =
     (if includes_str (toLowerCase (title paper)) query then [title paper] else [])
     @ matching query CHR '','' (authors paper)
     @ matching query CHR '';'' (keywords_of paper)"

text \<open>
  The tags of the collection in the words of the specification: the keywords of
  every paper split at \<open>;\<close>, each piece trimmed and lower-cased, empty pieces
  discarded.
\<close>

definition all_tags :: "Paper list \<Rightarrow> string list" where
  "all_tags papers =
     concat (map (\<lambda>paper. filter (\<lambda>tag. tag \<noteq> [])
                    (map (\<lambda>k. toLowerCase (trim k)) (split_str CHR '';'' (keywords_of paper))))
                 papers)"

text \<open>The ranking order: larger count first, equal counts by \<open>localeCompare\<close>.\<close>

definition ranks_before ::
  "(string \<Rightarrow> string \<Rightarrow> int) \<Rightarrow> string \<times> nat \<Rightarrow> string \<times> nat \<Rightarrow> bool" where
  "ranks_before localeCompare a b =
     (snd b < snd a \<or> (snd a = snd b \<and> localeCompare (fst a) (fst b) \<le> 0))"

text \<open>Counting one more occurrence of a tag.\<close>

definition count1 :: "string \<Rightarrow> (string \<times> nat) list \<Rightarrow> (string \<times> nat) list" where
  "count1 tag m = map_set m tag (map_get_or_0 m tag + 1)"

section \<open>Sample data\<close>

text \<open>Two papers and a list of five records.\<close>

definition paper_a :: Paper where
  "paper_a =
     \<lparr>venue = ''ICLR'', year = 2024, title = ''Deep Learning'', title_en = ''Deep Learning'',
      abstract = ''We study nets.'', abstract_en = ''We study nets.'',
      keywords_of = ''Deep Learning; NLP'', authors = ''Ada Lovelace, Alan Turing'',
      github_links = ''https://github.com/a/b'', pdf_download_url = [],
      openreview_forum_url = [], venue_id = ''iclr24''\<rparr>"

definition paper_b :: Paper where
  "paper_b =
     \<lparr>venue = ''CVPR'', year = 2023, title = ''Vision Models'', title_en = ''Vision Models'',
      abstract = ''We look at images.'', abstract_en = ''We look at images.'',
      keywords_of = ''deep learning; Vision'', authors = ''Grace Hopper'',
      github_links = '' '', pdf_download_url = [],
      openreview_forum_url = [], venue_id = ''cvpr23''\<rparr>"

definition five_papers :: "Paper list" where
  "five_papers = [paper_a, paper_b, paper_a, paper_b, paper_a]"

text \<open>
  The state after the loader has stored the two papers, and that state with one
  paper per page and the second page shown; states with a query and tag filters.
\<close>

definition loaded_state :: app_state where
  "loaded_state =
     watchEffect
       (fst (loadPapersData (Inr JsonOther) (Inr (PaperArray [paper_a, paper_b])) init_state))"

definition page2_state :: app_state where
  "page2_state = dispatch (GoToPage 2) (dispatch (ChangePapersPerPage 1) loaded_state)"

definition filter_witness_state :: app_state where
  "filter_witness_state =
     init_state\<lparr>allPapers := [paper_a, paper_b], searchQuery := '' DEEP'',
                selectedTags := [''NLP''], excludedTags := [''vision''],
                showOnlyWithCode := True\<rparr>"

definition untrimmed_query_state :: app_state where
  "untrimmed_query_state = init_state\<lparr>allPapers := [paper_a], searchQuery := '' deep''\<rparr>"

definition suggestion_state :: app_state where
  "suggestion_state = init_state\<lparr>allPapers := [paper_a, paper_b], searchQuery := '' Deep ''\<rparr>"

text \<open>A sample \<open>localeCompare\<close>: the order of the character codes.\<close>

definition codeCompare :: "string \<Rightarrow> string \<Rightarrow> int" where
  "codeCompare a b = (if a < b then - 1 else if a = b then 0 else 1)"

text \<open>
  A sample renderer: it throws on the malformed formula \<open>\frac{\<close> and wraps every
  other formula in a \<open>span\<close>.
\<close>

definition malformed :: string where
  "malformed = backslash # ''frac{''"

definition sample_katex :: katex where
  "sample_katex formula display =
     (if formula = malformed then None else Some (''<span>'' @ formula @ ''</span>''))"

section \<open>Properties of the tag toggle\<close>

lemma set_delete_absent: "\<not> set_has xs x \<Longrightarrow> set_delete xs x = xs"
  by (induction xs) (auto simp: set_has_def set_delete_def)

lemma set_delete_add: "\<not> set_has xs x \<Longrightarrow> set_delete (set_add xs x) x = xs"
  using set_delete_absent [of xs x] by (simp add: set_add_def set_delete_def)

lemma set_has_add: "set_has (set_add xs x) y = (y = x \<or> set_has xs y)"
  by (auto simp: set_add_def set_has_def)

lemma set_has_delete: "set_has (set_delete xs x) y = (y \<noteq> x \<and> set_has xs y)"
  by (auto simp: set_delete_def set_has_def)

lemma toggleTagFilter_disjoint:
  assumes "set (selectedTags s) \<inter> set (excludedTags s) = {}"
  shows "set (selectedTags (toggleTagFilter tag s)) \<inter> set (excludedTags (toggleTagFilter tag s)) = {}"
  using assms
  by (auto simp: toggleTagFilter_def set_add_def set_delete_def set_has_def)

text \<open>
  C5. Starting from a state in which the tag is in neither set, three activations
  of \<open>toggleTagFilter\<close> on the same tag pass through included (in \<open>selectedTags\<close>
  only), then excluded (in \<open>excludedTags\<close> only), and then restore both sets as they
  were; at each of the three points the tag is in at most one of the sets, and
  sets that were disjoint at the start are disjoint at every point.
\<close>

theorem toggleTagFilter_three_cycle:
  assumes neutral: "\<not> set_has (selectedTags s) tag" "\<not> set_has (excludedTags s) tag"
  defines "s1 \<equiv> toggleTagFilter tag s"
  defines "s2 \<equiv> toggleTagFilter tag s1"
  defines "s3 \<equiv> toggleTagFilter tag s2"
  shows "set_has (selectedTags s1) tag \<and> \<not> set_has (excludedTags s1) tag
       \<and> \<not> set_has (selectedTags s2) tag \<and> set_has (excludedTags s2) tag
       \<and> \<not> set_has (selectedTags s3) tag \<and> \<not> set_has (excludedTags s3) tag
       \<and> s3 = s
       \<and> (set (selectedTags s) \<inter> set (excludedTags s) = {} \<longrightarrow>
            set (selectedTags s1) \<inter> set (excludedTags s1) = {}
          \<and> set (selectedTags s2) \<inter> set (excludedTags s2) = {}
          \<and> set (selectedTags s3) \<inter> set (excludedTags s3) = {})"
proof -
  have e1: "s1 = s\<lparr>selectedTags := set_add (selectedTags s) tag\<rparr>"
    using neutral by (simp add: s1_def toggleTagFilter_def)
  have in1: "set_has (selectedTags s1) tag" "\<not> set_has (excludedTags s1) tag"
    using neutral by (simp_all add: e1 set_has_add)
  have e2: "s2 = s1\<lparr>selectedTags := set_delete (selectedTags s1) tag,
                    excludedTags := set_add (excludedTags s1) tag\<rparr>"
    using in1 by (simp add: s2_def toggleTagFilter_def)
  have sel2: "selectedTags s2 = selectedTags s"
    using neutral by (simp add: e2 e1 set_delete_add)
  have exc2: "excludedTags s2 = set_add (excludedTags s) tag"
    by (simp add: e2 e1)
  have in2: "\<not> set_has (selectedTags s2) tag" "set_has (excludedTags s2) tag"
    using neutral by (simp_all add: sel2 exc2 set_has_add)
  have e3: "s3 = s2\<lparr>excludedTags := set_delete (excludedTags s2) tag\<rparr>"
    using in2 by (simp add: s3_def toggleTagFilter_def)
  have exc3: "excludedTags s3 = excludedTags s"
    using neutral by (simp add: e3 exc2 set_delete_add)
  have sel3: "selectedTags s3 = selectedTags s"
    by (simp add: e3 sel2)
  have restored: "s3 = s"
    using neutral by (simp add: e3 e2 e1 set_delete_add)
  have in3: "\<not> set_has (selectedTags s3) tag" "\<not> set_has (excludedTags s3) tag"
    using neutral by (simp_all add: restored)
  have disj: "set (selectedTags s) \<inter> set (excludedTags s) = {} \<longrightarrow>
            set (selectedTags s1) \<inter> set (excludedTags s1) = {}
          \<and> set (selectedTags s2) \<inter> set (excludedTags s2) = {}
          \<and> set (selectedTags s3) \<inter> set (excludedTags s3) = {}"
    unfolding s3_def s2_def s1_def
    by (simp add: toggleTagFilter_disjoint)
  show ?thesis
    using in1 in2 in3 restored disj by simp
qed

theorem toggleTagFilter_three_cycle_witness:
  "\<not> set_has (selectedTags init_state) ''nlp''
   \<and> \<not> set_has (excludedTags init_state) ''nlp''
   \<and> set (selectedTags init_state) \<inter> set (excludedTags init_state) = {}
   \<and> set_has (selectedTags (toggleTagFilter ''nlp'' init_state)) ''nlp''
   \<and> set_has (excludedTags (toggleTagFilter ''nlp'' (toggleTagFilter ''nlp'' init_state))) ''nlp''
   \<and> set (selectedTags (toggleTagFilter ''nlp'' (toggleTagFilter ''nlp'' init_state)))
       \<inter> set (excludedTags (toggleTagFilter ''nlp'' (toggleTagFilter ''nlp'' init_state))) = {}
   \<and> toggleTagFilter ''nlp'' (toggleTagFilter ''nlp'' (toggleTagFilter ''nlp'' init_state))
       = init_state"
proof -
  have n1: "\<not> set_has (selectedTags init_state) ''nlp''"
    by (simp add: init_state_def set_has_def)
  have n2: "\<not> set_has (excludedTags init_state) ''nlp''"
    by (simp add: init_state_def set_has_def)
  have d: "set (selectedTags init_state) \<inter> set (excludedTags init_state) = {}"
    by (simp add: init_state_def)
  show ?thesis
    using toggleTagFilter_three_cycle [OF n1 n2] n1 n2 d by simp
qed

section \<open>Properties of the paginator and of the page reset\<close>

lemma math_ceil_div_ceiling:
  "P \<noteq> 0 \<Longrightarrow> math_ceil_div L P = Num \<lceil>real_of_int L / real_of_int P\<rceil>"
proof -
  assume "P \<noteq> 0"
  have "\<lceil>real_of_int L / real_of_int P\<rceil> = - \<lfloor>real_of_int (- L) / real_of_int P\<rfloor>"
    by (simp add: ceiling_def)
  also have "\<dots> = - ((- L) div P)"
    by (simp only: floor_divide_of_int_eq)
  finally show ?thesis
    using \<open>P \<noteq> 0\<close> by (simp add: math_ceil_div_def)
qed

lemma ceiling_pos:
  assumes "0 < L" "0 < P"
  shows "1 \<le> \<lceil>real_of_int L / real_of_int P\<rceil>"
proof -
  have "0 < real_of_int L / real_of_int P" using assms by simp
  then show ?thesis by linarith
qed

lemma ceiling_zero: "\<lceil>real_of_int 0 / real_of_int P\<rceil> = 0"
  by simp

lemma filteredPapers_cong:
  "allPapers t = allPapers s \<Longrightarrow> filter_inputs t = filter_inputs s \<Longrightarrow>
   filteredPapers t = filteredPapers s"
proof -
  assume a: "allPapers t = allPapers s" and f: "filter_inputs t = filter_inputs s"
  from f have "filterCallback t = filterCallback s"
    by (intro ext) (simp add: filterCallback_def filter_inputs_def)
  with a show ?thesis by (simp add: filteredPapers_def)
qed

lemma filteredPapers_empty: "allPapers s = [] \<Longrightarrow> filteredPapers s = []"
  by (simp add: filteredPapers_def)

lemma totalPages_cong:
  "allPapers t = allPapers s \<Longrightarrow> filter_inputs t = filter_inputs s \<Longrightarrow>
   papersPerPage t = papersPerPage s \<Longrightarrow> totalPages t = totalPages s"
  using filteredPapers_cong [of t s] by (simp add: totalPages_def)


lemma js_le_mono: "js_le a n \<Longrightarrow> b \<le> a \<Longrightarrow> js_le b n"
  by (cases n) simp_all

lemma js_lt_succ: "js_lt a n \<Longrightarrow> js_le (a + 1) n"
  by (cases n) simp_all

lemma filterCallback_page_upd [simp]:
  "filterCallback (s\<lparr>currentPage := p\<rparr>) = filterCallback s"
  "filterCallback (s\<lparr>papersPerPage := n\<rparr>) = filterCallback s"
  "filterCallback (s\<lparr>inputPage := str\<rparr>) = filterCallback s"
  by (rule ext, simp add: filterCallback_def)+

lemma filteredPapers_page_upd [simp]:
  "filteredPapers (s\<lparr>currentPage := p\<rparr>) = filteredPapers s"
  "filteredPapers (s\<lparr>papersPerPage := n\<rparr>) = filteredPapers s"
  "filteredPapers (s\<lparr>inputPage := str\<rparr>) = filteredPapers s"
  by (simp_all add: filteredPapers_def)

lemma totalPages_page_upd [simp]:
  "totalPages (s\<lparr>currentPage := p\<rparr>) = totalPages s"
  "totalPages (s\<lparr>inputPage := str\<rparr>) = totalPages s"
  by (simp_all add: totalPages_def)

lemma handler_allPapers: "allPapers (handler e s) = allPapers s"
  by (cases e)
    (simp_all add: clearSearch_def toggleTagFilter_def toggleShowOnlyWithCode_def
      clearAllFilters_def goToPage_def prevPage_def nextPage_def changePapersPerPage_def
      goToInputPage_def split: option.splits)

lemma handler_filter_change:
  assumes "filter_inputs (handler e s) \<noteq> filter_inputs s"
  shows "currentPage (handler e s) = currentPage s"
  using assms
  by (cases e)
    (simp_all add: filter_inputs_def clearSearch_def toggleTagFilter_def
      toggleShowOnlyWithCode_def clearAllFilters_def goToPage_def prevPage_def nextPage_def
      changePapersPerPage_def goToInputPage_def split: option.splits if_splits)

lemma page_inv_goToPage: "page_inv s \<Longrightarrow> page_inv (goToPage p s)"
  by (simp add: page_inv_def goToPage_def)

lemma page_inv_prevPage: "page_inv s \<Longrightarrow> page_inv (prevPage s)"
  using js_le_mono [of "currentPage s" "totalPages s" "currentPage s - 1"]
  by (auto simp: page_inv_def prevPage_def)

lemma page_inv_nextPage: "page_inv s \<Longrightarrow> page_inv (nextPage s)"
  using js_lt_succ [of "currentPage s" "totalPages s"]
  by (auto simp: page_inv_def nextPage_def)

lemma page_inv_changePapersPerPage: "page_inv (changePapersPerPage n s)"
  by (simp add: page_inv_def changePapersPerPage_def)

lemma page_inv_goToInputPage: "page_inv s \<Longrightarrow> page_inv (goToInputPage s)"
  by (simp add: page_inv_def goToInputPage_def split: option.splits)

lemma page_inv_same_filter:
  assumes inv: "page_inv s"
    and same: "filteredPapers (handler e s) = filteredPapers s"
  shows "page_inv (handler e s)"
proof (cases e)
  case (GoToPage p)
  then show ?thesis using inv by (simp add: page_inv_goToPage)
next
  case PrevPage
  then show ?thesis using inv by (simp add: page_inv_prevPage)
next
  case NextPage
  then show ?thesis using inv by (simp add: page_inv_nextPage)
next
  case (ChangePapersPerPage n)
  then show ?thesis by (simp add: page_inv_changePapersPerPage)
next
  case GoToInputPage
  then show ?thesis using inv by (simp add: page_inv_goToInputPage)
next
  case (SetInputPage str)
  then show ?thesis using inv by (simp add: page_inv_def)
next
  case (SetSearchQuery q)
  then show ?thesis using inv same by (simp add: page_inv_def totalPages_def)
next
  case ClearSearch
  then show ?thesis using inv same by (simp add: page_inv_def totalPages_def clearSearch_def)
next
  case (SetSelectedYear y)
  then show ?thesis using inv same by (simp add: page_inv_def totalPages_def)
next
  case (SetSelectedVenue v)
  then show ?thesis using inv same by (simp add: page_inv_def totalPages_def)
next
  case (ToggleTagFilter tag)
  then show ?thesis using inv same
    by (simp add: page_inv_def totalPages_def toggleTagFilter_def split: if_splits)
next
  case (DeleteSelectedTag tag)
  then show ?thesis using inv same by (simp add: page_inv_def totalPages_def)
next
  case (DeleteExcludedTag tag)
  then show ?thesis using inv same by (simp add: page_inv_def totalPages_def)
next
  case ToggleShowOnlyWithCode
  then show ?thesis using inv same
    by (simp add: page_inv_def totalPages_def toggleShowOnlyWithCode_def)
next
  case ClearAllFilters
  then show ?thesis using inv same
    by (simp add: page_inv_def totalPages_def clearAllFilters_def)
qed

lemma page_inv_watchEffect: "page_inv (watchEffect s)"
  by (simp add: page_inv_def watchEffect_def)

lemma page_inv_dispatch:
  assumes "page_inv s"
  shows "page_inv (dispatch e s)"
proof (cases "watch_triggered s (handler e s)")
  case True
  then show ?thesis by (simp add: dispatch_def flush_def page_inv_watchEffect)
next
  case False
  then have "allPapers s = [] \<or> filter_inputs (handler e s) = filter_inputs s"
    by (auto simp: watch_triggered_def)
  then have "filteredPapers (handler e s) = filteredPapers s"
    using filteredPapers_cong [of "handler e s" s] handler_allPapers [of e s]
    by (auto simp: filteredPapers_empty)
  with assms have "page_inv (handler e s)" by (rule page_inv_same_filter)
  with False show ?thesis by (simp add: dispatch_def flush_def)
qed

lemma loadPapersData_allPapers:
  "fst (loadPapersData response1 response2 s)
     = s\<lparr>allPapers := fst (loadBody response1 response2 (allPapers s))\<rparr>"
  by (simp add: loadPapersData_def split: prod.splits option.splits)

lemma reachable_page_inv: "reachable s \<Longrightarrow> page_inv s"
proof (induction rule: reachable.induct)
  case reach_init
  show ?case by (simp add: page_inv_def init_state_def)
next
  case (reach_load s response1 response2)
  show ?case by (rule page_inv_watchEffect)
next
  case (reach_action s e)
  then show ?case by (simp add: page_inv_dispatch)
qed

lemma page_inv_empty:
  assumes "page_inv s" "allPapers s = []"
  shows "currentPage s = 1"
proof -
  have "totalPages s = Num 0 \<or> totalPages s = NaN"
    using assms(2) by (simp add: totalPages_def filteredPapers_empty math_ceil_div_def)
  with assms(1) show ?thesis by (auto simp: page_inv_def)
qed

text \<open>
  C4. In every reachable state, a user action that changes one of the filter
  variables (query, year, venue, included tags, excluded tags, code-only flag)
  leaves the current page at 1 when its effects have run, before the next render
  computes the page; and \<open>changePapersPerPage\<close> sets the current page to 1 in every
  state.
\<close>

theorem filter_change_resets_page:
  "(reachable s \<and> filter_inputs (handler e s) \<noteq> filter_inputs s
      \<longrightarrow> currentPage (dispatch e s) = 1)
   \<and> currentPage (dispatch (ChangePapersPerPage n) s) = 1"
proof (intro conjI impI)
  assume a: "reachable s \<and> filter_inputs (handler e s) \<noteq> filter_inputs s"
  then have inv: "page_inv s" by (simp add: reachable_page_inv)
  show "currentPage (dispatch e s) = 1"
  proof (cases "allPapers s = []")
    case True
    then have "currentPage s = 1" using inv by (rule page_inv_empty [rotated])
    moreover have "currentPage (handler e s) = currentPage s"
      using a by (simp add: handler_filter_change)
    ultimately show ?thesis
      by (simp add: dispatch_def flush_def watchEffect_def)
  next
    case False
    with a have "watch_triggered s (handler e s)" by (simp add: watch_triggered_def)
    then show ?thesis by (simp add: dispatch_def flush_def watchEffect_def)
  qed
next
  show "currentPage (dispatch (ChangePapersPerPage n) s) = 1"
    by (simp add: dispatch_def flush_def watchEffect_def changePapersPerPage_def)
qed

lemma loaded_state_eq: "loaded_state = init_state\<lparr>allPapers := [paper_a, paper_b]\<rparr>"
  by (simp add: loaded_state_def loadPapersData_def loadBody_def processFirst_def
      processSecond_def watchEffect_def init_state_def)

lemma filterCallback_no_filter:
  "searchQuery s = [] \<Longrightarrow> selectedYear s = AllYears \<Longrightarrow> selectedVenue s = ''all'' \<Longrightarrow>
   selectedTags s = [] \<Longrightarrow> excludedTags s = [] \<Longrightarrow> \<not> showOnlyWithCode s \<Longrightarrow>
   filterCallback s paper"
  by (simp add: filterCallback_def toLowerCase_def trim_def)

lemma filteredPapers_no_filter:
  "searchQuery s = [] \<Longrightarrow> selectedYear s = AllYears \<Longrightarrow> selectedVenue s = ''all'' \<Longrightarrow>
   selectedTags s = [] \<Longrightarrow> excludedTags s = [] \<Longrightarrow> \<not> showOnlyWithCode s \<Longrightarrow>
   filteredPapers s = allPapers s"
  by (simp add: filteredPapers_def filterCallback_no_filter)

lemma page2_state_eq:
  "page2_state = init_state\<lparr>allPapers := [paper_a, paper_b], currentPage := 2, papersPerPage := 1\<rparr>"
proof -
  have 1: "dispatch (ChangePapersPerPage 1) loaded_state
           = init_state\<lparr>allPapers := [paper_a, paper_b], currentPage := 1, papersPerPage := 1\<rparr>"
    by (simp add: loaded_state_eq dispatch_def flush_def watch_triggered_def
        changePapersPerPage_def filter_inputs_def init_state_def)
  have 2: "totalPages (init_state\<lparr>allPapers := [paper_a, paper_b], currentPage := 1, papersPerPage := 1\<rparr>) = Num 2"
    by (simp add: totalPages_def filteredPapers_no_filter init_state_def math_ceil_div_def)
  show ?thesis
    unfolding page2_state_def 1
    by (simp add: dispatch_def goToPage_def 2 flush_def watch_triggered_def filter_inputs_def)
qed

lemma reachable_page2_state: "reachable page2_state"
  unfolding page2_state_def loaded_state_def
  by (intro reach_action reach_load reach_init)

theorem filter_change_resets_page_witness:
  "reachable page2_state
   \<and> filter_inputs (handler (SetSearchQuery ''vision'') page2_state) \<noteq> filter_inputs page2_state
   \<and> currentPage page2_state = 2
   \<and> currentPage (dispatch (SetSearchQuery ''vision'') page2_state) = 1
   \<and> currentPage (dispatch (ChangePapersPerPage 10) page2_state) = 1"
proof -
  have f: "filter_inputs (handler (SetSearchQuery ''vision'') page2_state) \<noteq> filter_inputs page2_state"
    by (simp add: page2_state_eq filter_inputs_def init_state_def)
  have c: "currentPage page2_state = 2"
    by (simp add: page2_state_eq)
  show ?thesis
    using filter_change_resets_page [of page2_state "SetSearchQuery ''vision''" 10]
      reachable_page2_state f c by simp
qed


lemma ceiling_mult_ge:
  assumes "0 < P"
  shows "L \<le> \<lceil>real_of_int L / real_of_int P\<rceil> * P"
proof -
  have p: "0 < real_of_int P" using assms by simp
  have "real_of_int L \<le> real_of_int \<lceil>real_of_int L / real_of_int P\<rceil> * real_of_int P"
    by (rule iffD1 [OF pos_divide_le_eq [OF p]]) (rule le_of_int_ceiling)
  then have "real_of_int L \<le> real_of_int (\<lceil>real_of_int L / real_of_int P\<rceil> * P)"
    by simp
  then show ?thesis by (simp only: of_int_le_iff)
qed

lemma js_slice_take_drop:
  assumes "0 \<le> a" "0 \<le> n"
  shows "js_slice xs a (a + n) = take (nat n) (drop (nat a) xs)"
proof (cases "a \<le> int (length xs)")
  case True
  have "take (nat (min (a + n) (int (length xs)) - a)) (drop (nat a) xs)
        = take (nat n) (drop (nat a) xs)"
  proof (cases "a + n \<le> int (length xs)")
    case True
    then show ?thesis by (simp add: min_def)
  next
    case False
    then have "length (drop (nat a) xs) \<le> nat n" using assms by simp
    moreover have "length (drop (nat a) xs) \<le> nat (int (length xs) - a)" using assms by simp
    ultimately show ?thesis using False by (simp add: min_def)
  qed
  then show ?thesis using True assms by (simp add: js_slice_def Let_def)
next
  case False
  then show ?thesis using assms by (simp add: js_slice_def Let_def min_def)
qed

lemma concat_pages:
  "concat (map (\<lambda>i. take p (drop (i * p) xs)) [0..<m]) = take (m * p) xs"
proof (induction m)
  case 0
  show ?case by simp
next
  case (Suc m)
  have "take (p + m * p) xs = take (m * p) xs @ take p (drop (m * p) xs)"
    using take_add [of "m * p" p xs] by (simp add: add.commute)
  with Suc show ?case by simp
qed

lemma upto_as_map: "[1..int m] = map (\<lambda>i. int i + 1) [0..<m]"
proof (induction m)
  case 0
  show ?case by simp
next
  case (Suc m)
  have "[1..int (Suc m)] = [1..int m] @ [int m + 1]"
    using upto_rec2 [of 1 "int m + 1"] by (simp add: add.commute)
  with Suc show ?case by simp
qed

lemma paginatedPapers_page:
  assumes "0 < papersPerPage s"
  shows "paginatedPapers (s\<lparr>currentPage := int i + 1\<rparr>)
         = take (nat (papersPerPage s)) (drop (i * nat (papersPerPage s)) (filteredPapers s))"
proof -
  have "nat (int i * papersPerPage s) = i * nat (papersPerPage s)"
    by (simp add: nat_mult_distrib)
  moreover have "0 \<le> int i * papersPerPage s" using assms by simp
  ultimately show ?thesis
    using assms js_slice_take_drop [of "int i * papersPerPage s" "papersPerPage s" "filteredPapers s"]
    by (simp add: paginatedPapers_def Let_def)
qed

lemma pages_upto:
  assumes "0 < papersPerPage s"
  shows "concat (map (\<lambda>c. paginatedPapers (s\<lparr>currentPage := c\<rparr>)) [1..int m])
         = take (m * nat (papersPerPage s)) (filteredPapers s)"
  using concat_pages [of "nat (papersPerPage s)" "filteredPapers s" m]
  by (simp add: upto_as_map comp_def paginatedPapers_page [OF assms])

text \<open>
  C7. For a page size \<open>P > 0\<close> and a filtered list of length \<open>L\<close>, the items of the
  pages \<open>1, 2, ..., max(1, ceil(L / P))\<close>, concatenated in page order, are the
  filtered list itself: every element once, in its place.
\<close>

theorem pages_reconstruct:
  assumes "0 < papersPerPage s"
  shows "concat (map (\<lambda>c. paginatedPapers (s\<lparr>currentPage := c\<rparr>))
                [1..spec_totalPages (int (length (filteredPapers s))) (papersPerPage s)])
         = filteredPapers s"
proof -
  define L where "L = int (length (filteredPapers s))"
  define P where "P = papersPerPage s"
  define n where "n = spec_totalPages L P"
  have "0 \<le> n" by (simp add: n_def spec_totalPages_def)
  then have n: "n = int (nat n)" by simp
  have "L \<le> \<lceil>real_of_int L / real_of_int P\<rceil> * P"
    using assms by (simp add: P_def ceiling_mult_ge)
  also have "\<dots> \<le> n * P"
    using assms by (simp add: n_def spec_totalPages_def P_def)
  finally have "L \<le> n * P" .
  then have "int (length (filteredPapers s)) \<le> int (nat n * nat P)"
    using \<open>0 \<le> n\<close> assms by (simp add: L_def P_def nat_mult_distrib)
  then have len: "length (filteredPapers s) \<le> nat n * nat P" by (simp only: of_nat_le_iff)
  have "concat (map (\<lambda>c. paginatedPapers (s\<lparr>currentPage := c\<rparr>)) [1..int (nat n)])
        = take (nat n * nat P) (filteredPapers s)"
    using pages_upto [OF assms, of "nat n"] by (simp add: P_def)
  with len n show ?thesis by (simp add: n_def L_def P_def)
qed


lemma filteredPapers_page2_state: "filteredPapers page2_state = [paper_a, paper_b]"
  by (simp add: page2_state_eq filteredPapers_no_filter init_state_def)

theorem pages_reconstruct_witness:
  "0 < papersPerPage page2_state
   \<and> spec_totalPages (int (length (filteredPapers page2_state))) (papersPerPage page2_state) = 2
   \<and> concat (map (\<lambda>c. paginatedPapers (page2_state\<lparr>currentPage := c\<rparr>)) [1..2])
       = [paper_a, paper_b]"
proof -
  have p: "0 < papersPerPage page2_state"
    by (simp add: page2_state_eq init_state_def)
  have n: "spec_totalPages (int (length (filteredPapers page2_state))) (papersPerPage page2_state) = 2"
    by (simp add: filteredPapers_page2_state spec_totalPages_def)
      (simp add: page2_state_eq init_state_def)
  show ?thesis
    using pages_reconstruct [OF p] p n by (simp add: filteredPapers_page2_state)
qed

text \<open>
  C3, as the code has it. For a page size \<open>P > 0\<close> the page count is
  \<open>ceil(L / P)\<close>: it is \<open>max(1, ceil(L / P))\<close> when the filtered list is not empty and
  0 when it is empty. Nothing clamps the current page; in every reachable state it
  lies between 1 and \<open>max(1, ceil(L / P))\<close>, and \<open>goToPage\<close> with a page outside
  \<open>[1, totalPages]\<close> changes nothing and raises nothing.
\<close>

theorem totalPages_ceiling:
  assumes "0 < papersPerPage s"
  shows "totalPages s
           = Num \<lceil>real_of_int (int (length (filteredPapers s))) / real_of_int (papersPerPage s)\<rceil>
       \<and> (filteredPapers s \<noteq> [] \<longrightarrow>
            totalPages s
              = Num (spec_totalPages (int (length (filteredPapers s))) (papersPerPage s)))
       \<and> (filteredPapers s = [] \<longrightarrow> totalPages s = Num 0)
       \<and> (reachable s \<longrightarrow>
            1 \<le> currentPage s
            \<and> currentPage s
                \<le> spec_totalPages (int (length (filteredPapers s))) (papersPerPage s))
       \<and> (p < 1 \<or> \<not> js_le p (totalPages s) \<longrightarrow> goToPage p s = s)"
proof -
  define L where "L = int (length (filteredPapers s))"
  define P where "P = papersPerPage s"
  have P: "0 < P" using assms by (simp add: P_def)
  have t: "totalPages s = Num \<lceil>real_of_int L / real_of_int P\<rceil>"
    using P by (simp add: totalPages_def L_def P_def math_ceil_div_ceiling)
  have pos: "filteredPapers s \<noteq> [] \<longrightarrow> totalPages s = Num (spec_totalPages L P)"
  proof
    assume "filteredPapers s \<noteq> []"
    then have "0 < L" by (simp add: L_def)
    then have "1 \<le> \<lceil>real_of_int L / real_of_int P\<rceil>" using P by (rule ceiling_pos)
    then show "totalPages s = Num (spec_totalPages L P)"
      by (simp add: t spec_totalPages_def)
  qed
  have zero: "filteredPapers s = [] \<longrightarrow> totalPages s = Num 0"
    by (simp add: t L_def)
  have inv: "reachable s \<longrightarrow> 1 \<le> currentPage s \<and> currentPage s \<le> spec_totalPages L P"
  proof
    assume "reachable s"
    then have "page_inv s" by (rule reachable_page_inv)
    then show "1 \<le> currentPage s \<and> currentPage s \<le> spec_totalPages L P"
      by (auto simp: page_inv_def t spec_totalPages_def)
  qed
  have nav: "p < 1 \<or> \<not> js_le p (totalPages s) \<longrightarrow> goToPage p s = s"
    by (auto simp: goToPage_def)
  show ?thesis
    using t pos zero inv nav by (simp add: L_def P_def)
qed

theorem totalPages_ceiling_witness:
  "0 < papersPerPage page2_state \<and> filteredPapers page2_state \<noteq> [] \<and> reachable page2_state
   \<and> totalPages page2_state = Num 2 \<and> currentPage page2_state = 2
   \<and> \<not> js_le 3 (totalPages page2_state) \<and> goToPage 3 page2_state = page2_state
   \<and> 0 < papersPerPage init_state \<and> filteredPapers init_state = []
   \<and> totalPages init_state = Num 0"
proof -
  have pp: "papersPerPage page2_state = 1"
    by (simp add: page2_state_eq)
  have p2: "0 < papersPerPage page2_state"
    by (simp add: pp)
  have p0: "0 < papersPerPage init_state"
    by (simp add: init_state_def)
  have f0: "filteredPapers init_state = []"
    by (simp add: filteredPapers_def init_state_def)
  have f2: "filteredPapers page2_state \<noteq> []"
    by (simp add: filteredPapers_page2_state)
  have s2: "spec_totalPages (int (length (filteredPapers page2_state))) (papersPerPage page2_state) = 2"
    by (simp add: filteredPapers_page2_state spec_totalPages_def pp)
  have c2: "currentPage page2_state = 2"
    by (simp add: page2_state_eq)
  note at2 = totalPages_ceiling [OF p2, of 3]
  note at0 = totalPages_ceiling [OF p0, of 0]
  have t2: "totalPages page2_state = Num 2"
    using at2 [THEN conjunct2, THEN conjunct1] f2 s2 by simp
  have n3: "\<not> js_le 3 (totalPages page2_state)"
    by (simp add: t2)
  have g3: "goToPage 3 page2_state = page2_state"
    using at2 [THEN conjunct2, THEN conjunct2, THEN conjunct2, THEN conjunct2] n3 by simp
  have t0: "totalPages init_state = Num 0"
    using at0 [THEN conjunct2, THEN conjunct2, THEN conjunct1] f0 by simp
  show ?thesis
    using p2 f2 reachable_page2_state t2 c2 n3 g3 p0 f0 t0 by simp
qed

text \<open>
  With no papers and the default page size of 50 the page count is 0, not
  \<open>max(1, ceil(0 / 50)) = 1\<close>, and the current page 1 is outside \<open>[1, totalPages]\<close>.
\<close>

theorem totalPages_empty_counterexample:
  "0 < papersPerPage init_state
   \<and> totalPages init_state
       \<noteq> Num (spec_totalPages (int (length (filteredPapers init_state))) (papersPerPage init_state))
   \<and> \<not> (1 \<le> currentPage init_state \<and> js_le (currentPage init_state) (totalPages init_state))"
proof -
  have f0: "filteredPapers init_state = []"
    by (simp add: filteredPapers_def init_state_def)
  have pp: "papersPerPage init_state = 50"
    by (simp add: init_state_def)
  have cp: "currentPage init_state = 1"
    by (simp add: init_state_def)
  have t: "totalPages init_state = Num 0"
    by (simp add: totalPages_def f0 math_ceil_div_def pp)
  show ?thesis
    by (simp add: t f0 spec_totalPages_def pp cp)
qed

section \<open>Properties of the formula renderer\<close>

text \<open>
  C10. For an absent or empty text \<open>renderLatex\<close> returns the empty string, and the
  list of calls of the renderer is empty.
\<close>

theorem renderLatex_empty:
  "renderLatex k None = ([], []) \<and> renderLatex k (Some []) = ([], [])"
  by (simp add: renderLatex_def)

theorem renderLatex_empty_witness:
  "renderLatex (\<lambda>formula display. None) (Some []) = ([], [])"
  using renderLatex_empty [of "\<lambda>formula display. None"] by simp

section \<open>Properties of the filter engine\<close>

lemma isWhiteSpace_lowerChar: "isWhiteSpace (lowerChar c) = isWhiteSpace c"
  by (auto simp: isWhiteSpace_def lowerChar_def isUpper_def)

lemma dropWhile_toLowerCase:
  "dropWhile isWhiteSpace (toLowerCase s) = toLowerCase (dropWhile isWhiteSpace s)"
  by (induction s) (simp_all add: toLowerCase_def isWhiteSpace_lowerChar)

lemma rev_toLowerCase: "rev (toLowerCase s) = toLowerCase (rev s)"
  by (simp add: toLowerCase_def rev_map)

lemma trim_toLowerCase: "trim (toLowerCase s) = toLowerCase (trim s)"
  by (simp add: trim_def dropWhile_toLowerCase rev_toLowerCase)

lemma toLowerCase_Nil_iff: "toLowerCase s = [] \<longleftrightarrow> s = []"
  by (simp add: toLowerCase_def)

lemma included_tags_eq:
  "list_all (\<lambda>tag. tag \<in> set (map (\<lambda>k. toLowerCase (trim k)) ks)) (map toLowerCase tags)
   = list_all (\<lambda>tag. ci_member tag (set (map trim ks))) tags"
  by (induction tags) (auto simp: ci_member_def)

lemma excluded_tags_eq:
  "(\<not> list_ex (\<lambda>tag. tag \<in> set (map (\<lambda>k. toLowerCase (trim k)) ks)) (map toLowerCase tags))
   = list_all (\<lambda>tag. \<not> ci_member tag (set (map trim ks))) tags"
  by (induction tags) (auto simp: ci_member_def)

lemma matchesYear_eq:
  "(case y of AllYears \<Rightarrow> True | Year n \<Rightarrow> py = n) = (y = AllYears \<or> y = Year py)"
  by (cases y) auto

lemma filterCallback_spec: "filterCallback s paper = spec_matches_trimmed s paper"
proof -
  have q: "trim (toLowerCase (searchQuery s)) = toLowerCase (trim (searchQuery s))"
    by (rule trim_toLowerCase)
  have tm: "(toLowerCase (trim (searchQuery s)) = [] \<or>
         (includes_str (toLowerCase (title paper)) (toLowerCase (trim (searchQuery s))) \<or>
          includes_str (toLowerCase (authors paper)) (toLowerCase (trim (searchQuery s))) \<or>
          includes_str (toLowerCase (abstract paper)) (toLowerCase (trim (searchQuery s))) \<or>
          includes_str (toLowerCase (keywords_of paper)) (toLowerCase (trim (searchQuery s))) \<or>
          includes_str (toLowerCase (venue paper)) (toLowerCase (trim (searchQuery s)))))
        = spec_text_match (trim (searchQuery s)) paper"
    by (simp add: spec_text_match_def ci_substring_def toLowerCase_Nil_iff)
  have rest: "((case selectedYear s of AllYears \<Rightarrow> True | Year y \<Rightarrow> year paper = y)
        \<and> (selectedVenue s = ''all'' \<or> venue paper = selectedVenue s)
        \<and> list_all (\<lambda>tag. tag \<in> set (map (\<lambda>k. toLowerCase (trim k))
                                     (split_str CHR '';'' (keywords_of paper))))
             (map toLowerCase (selectedTags s))
        \<and> (\<not> list_ex (\<lambda>tag. tag \<in> set (map (\<lambda>k. toLowerCase (trim k))
                                     (split_str CHR '';'' (keywords_of paper))))
             (map toLowerCase (excludedTags s)))
        \<and> (\<not> showOnlyWithCode s \<or> trim (github_links paper) \<noteq> []))
        = spec_matches_rest s paper"
    unfolding spec_matches_rest_def tag_set_def included_tags_eq excluded_tags_eq matchesYear_eq
    by auto
  show ?thesis
    unfolding filterCallback_def Let_def q tm spec_matches_trimmed_def rest [symmetric]
    by simp
qed

text \<open>
  C1, as the code has it. \<open>filteredPapers\<close> depends on the collection and the six
  filter variables only; its output is the collection filtered by a predicate, so
  an order-preserving subsequence. A paper of the collection is in the output if
  and only if: the query, trimmed, is empty or a case-insensitive substring of
  title, authors, abstract, keywords or venue; the year selection is "all" or the
  paper's year; the venue selection is "all" or the paper's venue; every included
  tag is, ignoring case, among the trimmed pieces of the keywords split at \<open>;\<close>; no
  excluded tag is; and the code-only flag is off or the trimmed code link is not
  empty.
\<close>

theorem filteredPapers_contract:
  "filteredPapers s = filter (spec_matches_trimmed s) (allPapers s)
   \<and> subseq (filteredPapers s) (allPapers s)
   \<and> (paper \<in> set (filteredPapers s)
        \<longleftrightarrow> paper \<in> set (allPapers s) \<and> spec_matches_trimmed s paper)
   \<and> (allPapers t = allPapers s \<and> filter_inputs t = filter_inputs s
        \<longrightarrow> filteredPapers t = filteredPapers s)"
proof -
  have "filterCallback s = spec_matches_trimmed s"
    by (rule ext) (rule filterCallback_spec)
  then have eq: "filteredPapers s = filter (spec_matches_trimmed s) (allPapers s)"
    by (simp add: filteredPapers_def)
  have sub: "subseq (filteredPapers s) (allPapers s)"
    by (simp add: eq)
  have mem: "paper \<in> set (filteredPapers s)
        \<longleftrightarrow> paper \<in> set (allPapers s) \<and> spec_matches_trimmed s paper"
    by (simp add: eq)
  have pure: "allPapers t = allPapers s \<and> filter_inputs t = filter_inputs s
        \<longrightarrow> filteredPapers t = filteredPapers s"
    using filteredPapers_cong [of t s] by simp
  show ?thesis using eq sub mem pure by simp
qed

theorem filteredPapers_contract_witness:
  "filteredPapers filter_witness_state = [paper_a]
   \<and> spec_matches_trimmed filter_witness_state paper_a
   \<and> \<not> spec_matches_trimmed filter_witness_state paper_b
   \<and> paper_b \<in> set (allPapers filter_witness_state)
   \<and> paper_b \<notin> set (filteredPapers filter_witness_state)
   \<and> filter_inputs filter_witness_state = filter_inputs filter_witness_state"
proof -
  have a: "spec_matches_trimmed filter_witness_state paper_a"
    by code_simp
  have b: "\<not> spec_matches_trimmed filter_witness_state paper_b"
    by code_simp
  have all: "allPapers filter_witness_state = [paper_a, paper_b]"
    by (simp add: filter_witness_state_def)
  have eq: "filteredPapers filter_witness_state = [paper_a]"
    using filteredPapers_contract [of filter_witness_state paper_b filter_witness_state] a b all
    by simp
  have nb: "paper_b \<notin> set (filteredPapers filter_witness_state)"
    using filteredPapers_contract [of filter_witness_state paper_b filter_witness_state] b
    by blast
  show ?thesis
    using eq a b all nb by simp
qed

text \<open>
  The query \<open>'' deep''\<close> (with a leading blank) is not empty and is not a substring of
  any field of the paper, yet the paper is in the output: the code trims the query
  first.
\<close>

theorem filteredPapers_untrimmed_counterexample:
  "paper_a \<in> set (filteredPapers untrimmed_query_state)
   \<and> \<not> spec_matches untrimmed_query_state paper_a"
  by code_simp

section \<open>Properties of the loader\<close>

lemma fold_year_append:
  "fold (\<lambda>(year, yearPapers) acc. acc @ yearPapers) venueData papers
   = papers @ concat (map snd venueData)"
  by (induction venueData arbitrary: papers) (auto simp: case_prod_beta)

lemma fold_venue_append:
  "fold (\<lambda>(venue, venueData) acc.
           fold (\<lambda>(year, yearPapers) acc'. acc' @ yearPapers) venueData acc) byVenueYear papers
   = papers @ concat (map (\<lambda>(venue, venueData). concat (map snd venueData)) byVenueYear)"
  by (induction byVenueYear arbitrary: papers) (auto simp: case_prod_beta fold_year_append)

lemma processFirst_append:
  "processFirst d papers = Inr papers1 \<Longrightarrow> \<exists>added. papers1 = papers @ added"
  by (cases d) (auto simp: processFirst_def fold_venue_append)

lemma processSecond_append: "\<exists>added. processSecond d papers = papers @ added"
  by (cases d) (auto simp: processSecond_def)

lemma loadBody_append: "\<exists>added. fst (loadBody response1 response2 papers) = papers @ added"
proof (cases response1)
  case (Inl e)
  then show ?thesis by (simp add: loadBody_def)
next
  case (Inr d1)
  show ?thesis
  proof (cases "processFirst d1 papers")
    case (Inl e)
    then show ?thesis using Inr by (simp add: loadBody_def)
  next
    case first: (Inr papers1)
    then obtain a1 where a1: "papers1 = papers @ a1"
      using processFirst_append by blast
    show ?thesis
    proof (cases response2)
      case (Inl e)
      then show ?thesis using Inr first a1 by (simp add: loadBody_def)
    next
      case second: (Inr d2)
      obtain a2 where "processSecond d2 papers1 = papers1 @ a2"
        using processSecond_append by blast
      then show ?thesis using Inr first second a1 by (simp add: loadBody_def)
    qed
  qed
qed

text \<open>
  C2, as the code has it. The loader returns in every case, with one log entry. A
  failure is caught and logged; the failing document adds no record, the records
  that earlier documents added stay, and no later document is loaded: when the
  first document fails the collection is left as it was, whatever the second
  document holds. When both documents load, their records are appended in order.
\<close>

theorem loadPapersData_failure:
  "(response1 = Inl e \<longrightarrow>
      loadPapersData response1 response2 s = (s, [LoadFailed e]))
   \<and> (response1 = Inr JsonNull \<longrightarrow>
      loadPapersData response1 response2 s = (s, [LoadFailed TypeError]))
   \<and> (response1 = Inr d1 \<and> processFirst d1 (allPapers s) = Inr papers1 \<and> response2 = Inl e \<longrightarrow>
      loadPapersData response1 response2 s = (s\<lparr>allPapers := papers1\<rparr>, [LoadFailed e]))
   \<and> (response1 = Inr d1 \<and> processFirst d1 (allPapers s) = Inr papers1 \<and> response2 = Inr d2 \<longrightarrow>
      loadPapersData response1 response2 s
        = (s\<lparr>allPapers := processSecond d2 papers1\<rparr>,
           [TotalLoaded (length (processSecond d2 papers1))]))
   \<and> (\<exists>added. allPapers (fst (loadPapersData response1 response2 s)) = allPapers s @ added)
   \<and> length (snd (loadPapersData response1 response2 s)) = 1"
proof -
  have 1: "response1 = Inl e \<longrightarrow> loadPapersData response1 response2 s = (s, [LoadFailed e])"
    by (simp add: loadPapersData_def loadBody_def)
  have 2: "response1 = Inr JsonNull \<longrightarrow>
      loadPapersData response1 response2 s = (s, [LoadFailed TypeError])"
    by (simp add: loadPapersData_def loadBody_def processFirst_def)
  have 3: "response1 = Inr d1 \<and> processFirst d1 (allPapers s) = Inr papers1 \<and> response2 = Inl e \<longrightarrow>
      loadPapersData response1 response2 s = (s\<lparr>allPapers := papers1\<rparr>, [LoadFailed e])"
    by (simp add: loadPapersData_def loadBody_def)
  have 4: "response1 = Inr d1 \<and> processFirst d1 (allPapers s) = Inr papers1 \<and> response2 = Inr d2 \<longrightarrow>
      loadPapersData response1 response2 s
        = (s\<lparr>allPapers := processSecond d2 papers1\<rparr>,
           [TotalLoaded (length (processSecond d2 papers1))])"
    by (simp add: loadPapersData_def loadBody_def)
  have 5: "\<exists>added. allPapers (fst (loadPapersData response1 response2 s)) = allPapers s @ added"
    using loadBody_append [of response1 response2 "allPapers s"]
    by (simp add: loadPapersData_allPapers)
  have 6: "length (snd (loadPapersData response1 response2 s)) = 1"
    by (simp add: loadPapersData_def split: prod.splits option.splits)
  show ?thesis using 1 2 3 4 5 6 by blast
qed

theorem loadPapersData_failure_witness:
  "loadPapersData (Inl FetchError) (Inr (PaperArray five_papers)) init_state
     = (init_state, [LoadFailed FetchError])
   \<and> processFirst (VenueYearDoc [(''ICLR'', [(2024, [paper_a])])]) (allPapers init_state)
       = Inr [paper_a]
   \<and> loadPapersData (Inr (VenueYearDoc [(''ICLR'', [(2024, [paper_a])])])) (Inl ParseError) init_state
       = (init_state\<lparr>allPapers := [paper_a]\<rparr>, [LoadFailed ParseError])
   \<and> loadPapersData (Inr (VenueYearDoc [(''ICLR'', [(2024, [paper_a])])]))
        (Inr (PaperArray [paper_b])) init_state
       = (init_state\<lparr>allPapers := [paper_a, paper_b]\<rparr>, [TotalLoaded 2])"
proof -
  have p: "processFirst (VenueYearDoc [(''ICLR'', [(2024, [paper_a])])]) (allPapers init_state)
           = Inr [paper_a]"
    by (simp add: processFirst_def init_state_def)
  have a: "loadPapersData (Inl FetchError) (Inr (PaperArray five_papers)) init_state
     = (init_state, [LoadFailed FetchError])"
    using loadPapersData_failure
      [of "Inl FetchError" FetchError "Inr (PaperArray five_papers)" init_state]
    by simp
  have b: "loadPapersData (Inr (VenueYearDoc [(''ICLR'', [(2024, [paper_a])])])) (Inl ParseError) init_state
       = (init_state\<lparr>allPapers := [paper_a]\<rparr>, [LoadFailed ParseError])"
    using loadPapersData_failure
      [of "Inr (VenueYearDoc [(''ICLR'', [(2024, [paper_a])])])" ParseError "Inl ParseError"
          init_state "VenueYearDoc [(''ICLR'', [(2024, [paper_a])])]" "[paper_a]"] p
    by simp
  have c: "loadPapersData (Inr (VenueYearDoc [(''ICLR'', [(2024, [paper_a])])]))
        (Inr (PaperArray [paper_b])) init_state
       = (init_state\<lparr>allPapers := [paper_a, paper_b]\<rparr>, [TotalLoaded 2])"
    using loadPapersData_failure
      [of "Inr (VenueYearDoc [(''ICLR'', [(2024, [paper_a])])])" ParseError "Inr (PaperArray [paper_b])"
          init_state "VenueYearDoc [(''ICLR'', [(2024, [paper_a])])]" "[paper_a]" "PaperArray [paper_b]"] p
    by (simp add: processSecond_def)
  show ?thesis using p a b c by simp
qed

text \<open>
  The first document fails to load and the second holds five records: the
  collection stays empty.
\<close>

theorem loadPapersData_resilience_counterexample:
  "length five_papers = 5
   \<and> allPapers (fst (loadPapersData (Inl FetchError) (Inr (PaperArray five_papers)) init_state))
       = []
   \<and> allPapers (fst (loadPapersData (Inl FetchError) (Inr (PaperArray five_papers)) init_state))
       \<noteq> five_papers"
  by (simp add: loadPapersData_def loadBody_def init_state_def five_papers_def)

section \<open>Properties of the search suggestions\<close>

lemma remdups_drop_middle:
  "x \<in> set bs \<Longrightarrow> remdups (as @ x # bs) = remdups (as @ bs)"
  by (induction as) auto

lemma fold_set_add:
  "distinct acc \<Longrightarrow> fold (\<lambda>x a. set_add a x) xs acc = rev (remdups (rev (acc @ xs)))"
proof (induction xs arbitrary: acc)
  case Nil
  then show ?case by (simp add: distinct_remdups_id)
next
  case (Cons x xs)
  show ?case
  proof (cases "x \<in> set acc")
    case True
    then have "remdups (rev xs @ x # rev acc) = remdups (rev xs @ rev acc)"
      by (simp add: remdups_drop_middle)
    with True Cons show ?thesis by (simp add: set_add_def set_has_def)
  next
    case False
    with Cons.prems have "distinct (acc @ [x])" by simp
    from Cons.IH [OF this] False show ?thesis by (simp add: set_add_def set_has_def)
  qed
qed

lemma fold_suggestPiece:
  "fold (suggestPiece query) pieces sug
   = fold (\<lambda>x a. set_add a x)
       (map trim (filter (\<lambda>piece. includes_str (toLowerCase (trim piece)) query) pieces)) sug"
  by (induction pieces arbitrary: sug) (simp_all add: suggestPiece_def)

lemma suggestPaper_candidates:
  "suggestPaper query paper sug = fold (\<lambda>x a. set_add a x) (candidates query paper) sug"
  by (simp add: suggestPaper_def candidates_def matching_def fold_suggestPiece)

lemma fold_suggestPaper:
  "fold (suggestPaper query) papers sug
   = fold (\<lambda>x a. set_add a x) (concat (map (candidates query) papers)) sug"
  by (induction papers arbitrary: sug) (simp_all add: suggestPaper_candidates)

lemma searchSuggestions_scan:
  "searchSuggestions s =
     (if trim (searchQuery s) = [] then []
      else take 5 (rev (remdups (rev (concat
             (map (candidates (toLowerCase (trim (searchQuery s)))) (allPapers s)))))))"
  using fold_set_add [of "[]"]
  by (simp add: searchSuggestions_def trim_toLowerCase toLowerCase_Nil_iff fold_suggestPaper)

lemma candidates_entry:
  assumes "entry \<in> set (candidates (toLowerCase query) paper)"
  shows "(entry = title paper \<and> ci_substring query (title paper))
       \<or> (\<exists>author \<in> set (split_str CHR '','' (authors paper)).
             entry = trim author \<and> ci_substring query (trim author))
       \<or> (\<exists>keyword \<in> set (split_str CHR '';'' (keywords_of paper)).
             entry = trim keyword \<and> ci_substring query (trim keyword))"
  using assms
  by (auto simp: candidates_def matching_def ci_substring_def split: if_splits)

text \<open>
  C9. When the trimmed query is empty the suggestion list is empty. Otherwise the
  list has no duplicates and at most 5 entries; every entry is the title of a
  paper that contains the trimmed query ignoring case, or a trimmed author name
  (a piece of \<open>authors\<close> split at commas) that contains it, or a trimmed keyword (a
  piece of \<open>keywords\<close> split at semicolons) that contains it; and the list is the
  first 5 entries, each at its first occurrence, of the scan of the collection in
  order: per paper the title, then the authors in split order, then the keywords
  in split order.
\<close>

theorem searchSuggestions_contract:
  "(trim (searchQuery s) = [] \<longrightarrow> searchSuggestions s = [])
   \<and> distinct (searchSuggestions s)
   \<and> length (searchSuggestions s) \<le> 5
   \<and> (entry \<in> set (searchSuggestions s) \<longrightarrow>
        (\<exists>paper \<in> set (allPapers s).
           (entry = title paper \<and> ci_substring (trim (searchQuery s)) (title paper))
           \<or> (\<exists>author \<in> set (split_str CHR '','' (authors paper)).
                 entry = trim author \<and> ci_substring (trim (searchQuery s)) (trim author))
           \<or> (\<exists>keyword \<in> set (split_str CHR '';'' (keywords_of paper)).
                 entry = trim keyword \<and> ci_substring (trim (searchQuery s)) (trim keyword))))
   \<and> searchSuggestions s =
       (if trim (searchQuery s) = [] then []
        else take 5 (rev (remdups (rev (concat
               (map (candidates (toLowerCase (trim (searchQuery s)))) (allPapers s)))))))"
proof -
  define all where
    "all = rev (remdups (rev (concat
             (map (candidates (toLowerCase (trim (searchQuery s)))) (allPapers s)))))"
  have scan: "searchSuggestions s = (if trim (searchQuery s) = [] then [] else take 5 all)"
    by (simp add: all_def searchSuggestions_scan)
  have empty: "trim (searchQuery s) = [] \<longrightarrow> searchSuggestions s = []"
    by (simp add: scan)
  have "distinct all" by (simp add: all_def)
  then have dist: "distinct (searchSuggestions s)"
    by (simp add: scan)
  have len: "length (searchSuggestions s) \<le> 5"
    by (simp add: scan)
  have entries: "entry \<in> set (searchSuggestions s) \<longrightarrow>
        (\<exists>paper \<in> set (allPapers s).
           (entry = title paper \<and> ci_substring (trim (searchQuery s)) (title paper))
           \<or> (\<exists>author \<in> set (split_str CHR '','' (authors paper)).
                 entry = trim author \<and> ci_substring (trim (searchQuery s)) (trim author))
           \<or> (\<exists>keyword \<in> set (split_str CHR '';'' (keywords_of paper)).
                 entry = trim keyword \<and> ci_substring (trim (searchQuery s)) (trim keyword)))"
  proof
    assume "entry \<in> set (searchSuggestions s)"
    then have "entry \<in> set (take 5 all)"
      by (simp add: scan split: if_splits)
    then have "entry \<in> set all" by (rule in_set_takeD)
    then obtain paper where p: "paper \<in> set (allPapers s)"
      and e: "entry \<in> set (candidates (toLowerCase (trim (searchQuery s))) paper)"
      by (auto simp: all_def)
    from candidates_entry [OF e] p
    show "\<exists>paper \<in> set (allPapers s).
           (entry = title paper \<and> ci_substring (trim (searchQuery s)) (title paper))
           \<or> (\<exists>author \<in> set (split_str CHR '','' (authors paper)).
                 entry = trim author \<and> ci_substring (trim (searchQuery s)) (trim author))
           \<or> (\<exists>keyword \<in> set (split_str CHR '';'' (keywords_of paper)).
                 entry = trim keyword \<and> ci_substring (trim (searchQuery s)) (trim keyword))"
      by blast
  qed
  show ?thesis
    using empty dist len entries scan by (simp add: all_def)
qed

theorem searchSuggestions_contract_witness:
  "trim (searchQuery suggestion_state) \<noteq> []
   \<and> searchSuggestions suggestion_state = [''Deep Learning'', ''deep learning'']
   \<and> ''deep learning'' \<in> set (searchSuggestions suggestion_state)
   \<and> paper_b \<in> set (allPapers suggestion_state)
   \<and> (\<exists>keyword \<in> set (split_str CHR '';'' (keywords_of paper_b)).
         ''deep learning'' = trim keyword
         \<and> ci_substring (trim (searchQuery suggestion_state)) (trim keyword))
   \<and> trim (searchQuery (suggestion_state\<lparr>searchQuery := ''  ''\<rparr>)) = []
   \<and> searchSuggestions (suggestion_state\<lparr>searchQuery := ''  ''\<rparr>) = []"
proof -
  have q: "trim (searchQuery suggestion_state) \<noteq> []"
    by code_simp
  have r: "searchSuggestions suggestion_state = [''Deep Learning'', ''deep learning'']"
    by code_simp
  have p: "paper_b \<in> set (allPapers suggestion_state)"
    by (simp add: suggestion_state_def)
  have k: "\<exists>keyword \<in> set (split_str CHR '';'' (keywords_of paper_b)).
         ''deep learning'' = trim keyword
         \<and> ci_substring (trim (searchQuery suggestion_state)) (trim keyword)"
    by code_simp
  have b: "trim (searchQuery (suggestion_state\<lparr>searchQuery := ''  ''\<rparr>)) = []"
    by code_simp
  have e: "searchSuggestions (suggestion_state\<lparr>searchQuery := ''  ''\<rparr>) = []"
    using searchSuggestions_contract [of "suggestion_state\<lparr>searchQuery := ''  ''\<rparr>"] b
    by blast
  have m: "''deep learning'' \<in> set (searchSuggestions suggestion_state)"
    by (simp add: r)
  show ?thesis
    using q r m p k b e searchSuggestions_contract [of suggestion_state "''deep learning''"]
    by simp
qed

section \<open>Properties of the tag counts\<close>

lemma map_of_map_set: "map_of (map_set m k v) = (map_of m)(k \<mapsto> v)"
  by (induction m) auto

lemma keys_map_set: "fst ` set (map_set m k v) = insert k (fst ` set m)"
proof (induction m)
  case Nil
  show ?case by simp
next
  case (Cons e m)
  obtain k' v' where e: "e = (k', v')" by (cases e)
  show ?case using Cons by (cases "k' = k") (simp_all add: e insert_commute)
qed

lemma distinct_map_set: "distinct (map fst m) \<Longrightarrow> distinct (map fst (map_set m k v))"
proof (induction m)
  case Nil
  show ?case by simp
next
  case (Cons e m)
  then show ?case
    using keys_map_set [of m k v] by (cases e) auto
qed

lemma fold_countKeyword:
  "fold countKeyword ks m
   = fold count1 (filter (\<lambda>tag. tag \<noteq> []) (map (\<lambda>k. toLowerCase (trim k)) ks)) m"
  by (induction ks arbitrary: m) (simp_all add: countKeyword_def count1_def Let_def)

lemma fold_papers_count:
  "fold (\<lambda>paper m. fold countKeyword (split_str CHR '';'' (keywords_of paper)) m) papers m
   = fold count1 (all_tags papers) m"
  by (induction papers arbitrary: m) (simp_all add: all_tags_def fold_countKeyword)

lemma tagCountMap_count1: "tagCountMap papers = fold count1 (all_tags papers) []"
  by (simp add: tagCountMap_def fold_papers_count)

lemma get_count1: "map_get_or_0 (count1 tag m) t = map_get_or_0 m t + (if tag = t then 1 else 0)"
  by (simp add: count1_def map_get_or_0_def map_of_map_set)

lemma get_fold_count1: "map_get_or_0 (fold count1 ts m) t = map_get_or_0 m t + count_list ts t"
  by (induction ts arbitrary: m) (simp_all add: get_count1)

lemma keys_fold_count1: "fst ` set (fold count1 ts m) = fst ` set m \<union> set ts"
  by (induction ts arbitrary: m) (auto simp: count1_def keys_map_set)

lemma distinct_fold_count1:
  "distinct (map fst m) \<Longrightarrow> distinct (map fst (fold count1 ts m))"
  by (induction ts arbitrary: m) (simp_all add: count1_def distinct_map_set)

lemma distinct_tagCountMap: "distinct (map fst (tagCountMap papers))"
  by (simp add: tagCountMap_count1 distinct_fold_count1)

lemma set_tagCountMap:
  "set (tagCountMap papers) = {(tag, n). n = count_list (all_tags papers) tag \<and> 0 < n}"
proof -
  define M where "M = tagCountMap papers"
  define ts where "ts = all_tags papers"
  have d: "distinct (map fst M)" by (simp add: M_def distinct_tagCountMap)
  have keys: "fst ` set M = set ts"
    using keys_fold_count1 [of ts "[]"] by (simp add: M_def ts_def tagCountMap_count1)
  have get: "map_get_or_0 M t = count_list ts t" for t
    using get_fold_count1 [of ts "[]" t]
    by (simp add: M_def ts_def tagCountMap_count1 map_get_or_0_def)
  have "(tag, n) \<in> set M \<longleftrightarrow> n = count_list ts tag \<and> 0 < n" for tag n
  proof
    assume m: "(tag, n) \<in> set M"
    with d have "map_of M tag = Some n" by simp
    then have "map_get_or_0 M tag = n" by (simp add: map_get_or_0_def)
    then have n: "n = count_list ts tag" by (simp add: get)
    from m have "tag \<in> fst ` set M" by force
    then have "tag \<in> set ts" by (simp add: keys)
    then have "0 < count_list ts tag" using count_list_0_iff [of ts tag] by auto
    with n show "n = count_list ts tag \<and> 0 < n" by simp
  next
    assume a: "n = count_list ts tag \<and> 0 < n"
    then have "tag \<in> set ts" using count_list_0_iff [of ts tag] by auto
    then have "tag \<in> fst ` set M" by (simp add: keys)
    then obtain n' where m: "(tag, n') \<in> set M" by auto
    with d have "map_of M tag = Some n'" by simp
    then have "map_get_or_0 M tag = n'" by (simp add: map_get_or_0_def)
    then have "n' = n" using a by (simp add: get)
    with m show "(tag, n) \<in> set M" by simp
  qed
  then show ?thesis by (auto simp: M_def ts_def)
qed

lemma set_insert_by: "set (insert_by cmp x ys) = insert x (set ys)"
  by (induction ys) auto

lemma set_sort_by: "set (sort_by cmp xs) = set xs"
  by (induction xs) (simp_all add: sort_by_def set_insert_by)

lemma distinct_map_insert_by:
  "distinct (map f (insert_by cmp x ys)) = distinct (map f (x # ys))"
  by (induction ys) (auto simp: set_insert_by)

lemma distinct_map_sort_by: "distinct (map f (sort_by cmp xs)) = distinct (map f xs)"
  by (induction xs)
    (simp_all add: sort_by_def distinct_map_insert_by set_sort_by [unfolded sort_by_def])

lemma sorted_insert_by:
  assumes trans: "\<And>a b c. cmp a b \<le> 0 \<Longrightarrow> cmp b c \<le> 0 \<Longrightarrow> cmp a c \<le> 0"
    and total: "\<And>a b. cmp a b \<le> 0 \<or> cmp b a \<le> 0"
  shows "sorted_wrt (\<lambda>a b. cmp a b \<le> 0) ys \<Longrightarrow> sorted_wrt (\<lambda>a b. cmp a b \<le> 0) (insert_by cmp x ys)"
proof (induction ys)
  case Nil
  show ?case by simp
next
  case (Cons y ys)
  show ?case
  proof (cases "cmp x y \<le> 0")
    case True
    then have "\<forall>z \<in> set ys. cmp x z \<le> 0"
      using Cons.prems trans by auto
    with True Cons.prems show ?thesis by simp
  next
    case False
    then have "cmp y x \<le> 0" using total [of x y] by simp
    with False Cons show ?thesis by (auto simp: set_insert_by)
  qed
qed

lemma sorted_sort_by:
  assumes trans: "\<And>a b c. cmp a b \<le> 0 \<Longrightarrow> cmp b c \<le> 0 \<Longrightarrow> cmp a c \<le> 0"
    and total: "\<And>a b. cmp a b \<le> 0 \<or> cmp b a \<le> 0"
  shows "sorted_wrt (\<lambda>a b. cmp a b \<le> 0) (sort_by cmp xs)"
proof (induction xs)
  case Nil
  show ?case by (simp add: sort_by_def)
next
  case (Cons x xs)
  have "sort_by cmp (x # xs) = insert_by cmp x (sort_by cmp xs)"
    by (simp add: sort_by_def)
  with Cons show ?case
    using sorted_insert_by [of cmp "sort_by cmp xs" x, OF trans total] by simp
qed

lemma compareTags_le: "compareTags lc a b \<le> 0 \<longleftrightarrow> ranks_before lc a b"
  by (auto simp: compareTags_def ranks_before_def)


lemma ranks_before_trans:
  assumes "\<And>a b c. lc a b \<le> 0 \<Longrightarrow> lc b c \<le> 0 \<Longrightarrow> lc a c \<le> (0::int)"
    and "ranks_before lc x y" "ranks_before lc y z"
  shows "ranks_before lc x z"
proof (cases "snd x = snd y \<and> snd y = snd z")
  case True
  with assms(2,3) have "lc (fst x) (fst y) \<le> 0" "lc (fst y) (fst z) \<le> 0"
    by (simp_all add: ranks_before_def)
  then have "lc (fst x) (fst z) \<le> 0" by (rule assms(1))
  with True show ?thesis by (simp add: ranks_before_def)
next
  case False
  with assms(2,3) have "snd z < snd x" by (auto simp: ranks_before_def)
  then show ?thesis by (simp add: ranks_before_def)
qed

lemma ranks_before_total:
  assumes "\<And>a b. lc a b \<le> 0 \<or> lc b a \<le> (0::int)"
  shows "ranks_before lc x y \<or> ranks_before lc y x"
  using assms [of "fst x" "fst y"] by (auto simp: ranks_before_def)

lemma sorted_ranked:
  assumes trans: "\<And>a b c. lc a b \<le> 0 \<Longrightarrow> lc b c \<le> 0 \<Longrightarrow> lc a c \<le> (0::int)"
    and total: "\<And>a b. lc a b \<le> 0 \<or> lc b a \<le> (0::int)"
  shows "sorted_wrt (ranks_before lc) (sort_by (compareTags lc) xs)"
proof -
  have t: "compareTags lc a b \<le> 0 \<Longrightarrow> compareTags lc b c \<le> 0 \<Longrightarrow> compareTags lc a c \<le> 0"
    for a b c
    using ranks_before_trans [of lc a b c] trans by (simp add: compareTags_le)
  have l: "compareTags lc a b \<le> 0 \<or> compareTags lc b a \<le> 0" for a b
    using ranks_before_total [of lc a b] total by (simp add: compareTags_le)
  have "sorted_wrt (\<lambda>a b. compareTags lc a b \<le> 0) (sort_by (compareTags lc) xs)"
    using t l by (rule sorted_sort_by)
  then show ?thesis by (simp add: compareTags_le [abs_def] ranks_before_def [abs_def])
qed

lemma tagCountMap_example:
  "tagCountMap [paper_a, paper_b] = [(''deep learning'', 2), (''nlp'', 1), (''vision'', 1)]"
  by code_simp

lemma codeCompare_trans:
  "\<forall>a b c. codeCompare a b \<le> 0 \<and> codeCompare b c \<le> 0 \<longrightarrow> codeCompare a c \<le> 0"
  by (auto simp: codeCompare_def split: if_splits)

lemma codeCompare_total: "\<forall>a b. codeCompare a b \<le> 0 \<or> codeCompare b a \<le> 0"
  by (auto simp: codeCompare_def)

text \<open>
  C6. The tag counts are the numbers of occurrences of each tag among the keywords
  of all papers, split at \<open>;\<close>, trimmed, lower-cased, without the empty pieces. For
  a \<open>localeCompare\<close> that is a total order, the list is these tags with their
  counts, each tag once, ordered by falling count and, for equal counts, by rising
  \<open>localeCompare\<close> order, and cut to its first 50 entries. The keywords
  \<open>Deep Learning; NLP\<close> and \<open>deep learning; Vision\<close> give \<open>deep learning\<close> 2, \<open>nlp\<close> 1,
  \<open>vision\<close> 1, in this order.
\<close>

theorem tagsWithCounts_ranking:
  assumes trans: "\<forall>a b c. localeCompare a b \<le> 0 \<and> localeCompare b c \<le> 0
                    \<longrightarrow> localeCompare a c \<le> 0"
    and total: "\<forall>a b. localeCompare a b \<le> 0 \<or> localeCompare b a \<le> 0"
  shows "(\<exists>ranked. tagsWithCounts localeCompare papers = take 50 ranked
            \<and> set ranked = {(tag, n). n = count_list (all_tags papers) tag \<and> 0 < n}
            \<and> distinct (map fst ranked)
            \<and> sorted_wrt (ranks_before localeCompare) ranked)
       \<and> length (tagsWithCounts localeCompare papers) \<le> 50
       \<and> sorted_wrt (ranks_before localeCompare) (tagsWithCounts localeCompare papers)
       \<and> (localeCompare ''nlp'' ''vision'' < 0 \<longrightarrow>
            tagsWithCounts localeCompare [paper_a, paper_b]
              = [(''deep learning'', 2), (''nlp'', 1), (''vision'', 1)])"
proof -
  define ranked where "ranked = sort_by (compareTags localeCompare) (tagCountMap papers)"
  have cut: "tagsWithCounts localeCompare papers = take 50 ranked"
    by (simp add: tagsWithCounts_def ranked_def)
  have entries: "set ranked = {(tag, n). n = count_list (all_tags papers) tag \<and> 0 < n}"
    by (simp add: ranked_def set_sort_by set_tagCountMap)
  have once: "distinct (map fst ranked)"
    by (simp add: ranked_def distinct_map_sort_by distinct_tagCountMap)
  have ordered: "sorted_wrt (ranks_before localeCompare) ranked"
    unfolding ranked_def
  proof (rule sorted_ranked)
    fix a b c
    assume "localeCompare a b \<le> 0" "localeCompare b c \<le> 0"
    with trans show "localeCompare a c \<le> 0" by blast
  next
    fix a b
    from total show "localeCompare a b \<le> 0 \<or> localeCompare b a \<le> 0" by blast
  qed
  have first: "\<exists>ranked. tagsWithCounts localeCompare papers = take 50 ranked
            \<and> set ranked = {(tag, n). n = count_list (all_tags papers) tag \<and> 0 < n}
            \<and> distinct (map fst ranked)
            \<and> sorted_wrt (ranks_before localeCompare) ranked"
    using cut entries once ordered by blast
  have len: "length (tagsWithCounts localeCompare papers) \<le> 50"
    by (simp add: cut)
  have ordered_cut: "sorted_wrt (ranks_before localeCompare) (tagsWithCounts localeCompare papers)"
    using ordered by (simp add: cut sorted_wrt_take)
  have example: "localeCompare ''nlp'' ''vision'' < 0 \<longrightarrow>
            tagsWithCounts localeCompare [paper_a, paper_b]
              = [(''deep learning'', 2), (''nlp'', 1), (''vision'', 1)]"
    by (simp add: tagsWithCounts_def tagCountMap_example sort_by_def compareTags_def)
  show ?thesis
    using first len ordered_cut example by blast
qed

theorem tagsWithCounts_ranking_witness:
  "codeCompare ''nlp'' ''vision'' < 0
   \<and> tagsWithCounts codeCompare [paper_a, paper_b]
       = [(''deep learning'', 2), (''nlp'', 1), (''vision'', 1)]
   \<and> sorted_wrt (ranks_before codeCompare) (tagsWithCounts codeCompare [paper_a, paper_b])
   \<and> all_tags [paper_a, paper_b] = [''deep learning'', ''nlp'', ''deep learning'', ''vision'']"
proof -
  have lt: "codeCompare ''nlp'' ''vision'' < 0"
    by code_simp
  have tags: "all_tags [paper_a, paper_b]
              = [''deep learning'', ''nlp'', ''deep learning'', ''vision'']"
    by code_simp
  note r = tagsWithCounts_ranking [of codeCompare "[paper_a, paper_b]",
      OF codeCompare_trans codeCompare_total]
  show ?thesis
    using r lt tags by blast
qed

section \<open>Properties of the formula renderer, continued\<close>

lemma startsWith_split: "startsWith s p \<Longrightarrow> s = p @ drop (length p) s"
  by (induction s p rule: startsWith.induct) simp_all

lemma findClose_split: "findClose cl s = Some (formula, rest) \<Longrightarrow> s = formula @ cl @ rest"
proof (induction s arbitrary: formula)
  case Nil
  then show ?case by (simp split: if_splits)
next
  case (Cons c cs)
  show ?case
  proof (cases "startsWith (c # cs) cl")
    case True
    with Cons.prems have "formula = []" "rest = drop (length cl) (c # cs)" by simp_all
    with startsWith_split [OF True] show ?thesis by simp
  next
    case False
    with Cons.prems obtain f where "findClose cl cs = Some (f, rest)" "formula = c # f"
      by (auto split: option.splits)
    with Cons.IH show ?thesis by simp
  qed
qed

lemma replaceAll_all_fail:
  assumes "\<forall>formula. k formula (displayMode d) = None"
  shows "fst (replaceAll d k s) = s"
  using assms
proof (induction d k s rule: replaceAll.induct)
  case (1 d k)
  show ?case by simp
next
  case (2 d k c cs)
  note fail = "2.prems"
  show ?case
  proof (cases "startsWith (c # cs) (openDelim d)")
    case at_open: True
    show ?thesis
    proof (cases "findClose (closeDelim d) (drop (length (openDelim d)) (c # cs))")
      case None
      from "2.IH"(1) [OF at_open None fail] at_open None
      show ?thesis by (simp add: case_prod_beta)
    next
      case (Some found)
      obtain formula rest where found: "found = (formula, rest)" by (cases found)
      have ih: "fst (replaceAll d k rest) = rest"
        using "2.IH"(2) [OF at_open Some found [symmetric] fail] .
      have "drop (length (openDelim d)) (c # cs) = formula @ closeDelim d @ rest"
        using Some found by (simp add: findClose_split)
      with startsWith_split [OF at_open]
      have whole: "c # cs = openDelim d @ formula @ closeDelim d @ rest" by simp
      have "fst (replaceAll d k (c # cs)) = renderMatch k d formula @ fst (replaceAll d k rest)"
        using at_open Some found by (simp add: case_prod_beta)
      also have "\<dots> = openDelim d @ formula @ closeDelim d @ rest"
        using fail by (simp add: renderMatch_def ih)
      finally show ?thesis using whole by simp
    qed
  next
    case False
    from "2.IH"(3) [OF False fail] False
    show ?thesis by (simp add: case_prod_beta)
  qed
qed

lemma renderLatex_all_fail:
  assumes "\<forall>formula display. k formula display = None"
  shows "fst (renderLatex k (Some t)) = t"
proof -
  have pass: "fst (replaceAll d k s) = s" for d s
    using assms by (simp add: replaceAll_all_fail)
  show ?thesis
    using pass [of DollarDollar t] pass [of Bracket t] pass [of Dollar t] pass [of Paren t]
    by (auto simp: renderLatex_def split: prod.splits)
qed

lemma replaceAll_no_delimiter:
  "hd (openDelim d) \<notin> set s \<Longrightarrow> replaceAll d k s = (s, [])"
proof (induction s)
  case Nil
  show ?case by simp
next
  case (Cons c cs)
  then have "\<not> startsWith (c # cs) (openDelim d)"
    by (cases d) (auto simp: backslash_def)
  with Cons show ?case by simp
qed

lemma renderLatex_example_rendered:
  assumes "k ''x^2'' False = Some markup" "backslash \<notin> set markup"
  shows "renderLatex k (Some ''Result: $x^2$ done'')
         = (''Result: '' @ markup @ '' done'', [(''x^2'', False)])"
proof -
  have p1: "replaceAll DollarDollar k ''Result: $x^2$ done'' = (''Result: $x^2$ done'', [])"
    by simp
  have p2: "replaceAll Bracket k ''Result: $x^2$ done'' = (''Result: $x^2$ done'', [])"
    by (simp add: backslash_def)
  have p3: "replaceAll Dollar k ''Result: $x^2$ done''
            = (''Result: '' @ markup @ '' done'', [(''x^2'', False)])"
  proof -
    have "replaceAll Dollar k '' done'' = ('' done'', [])" by simp
    then show ?thesis using assms(1) by (simp add: renderMatch_def)
  qed
  have "hd (openDelim Paren) \<notin> set (''Result: '' @ markup @ '' done'')"
    using assms(2) by (simp add: backslash_def)
  then have p4: "replaceAll Paren k (''Result: '' @ markup @ '' done'')
                 = (''Result: '' @ markup @ '' done'', [])"
    by (rule replaceAll_no_delimiter)
  show ?thesis
    using p4 by (simp add: renderLatex_def p1 p2 p3 del: replaceAll.simps)
qed

lemma renderLatex_example_throws:
  assumes "k ''x^2'' False = None"
  shows "renderLatex k (Some ''Result: $x^2$ done'')
         = (''Result: $x^2$ done'', [(''x^2'', False)])"
  using assms by (simp add: renderLatex_def backslash_def renderMatch_def)

text \<open>
  C8. The four delimiter conventions are tried in the order \<open>$$...$$\<close>, \<open>\[...\]\<close>,
  \<open>$...$\<close>, \<open>\(...\)\<close>, and a formula whose rendering fails is meant to stay in the
  text as it was. For a display formula it does not: the renderer throws on the
  formula \<open>\frac{\<close> of the text \<open>$$\frac{$$\<close>, the first pass puts the text back, and the
  third pass then takes each \<open>$$\<close> for an empty inline formula and renders it. The
  output is not the original text.
\<close>

theorem renderLatex_failed_display_rescanned:
  "sample_katex malformed True = None
   \<and> renderLatex sample_katex (Some (''$$'' @ malformed @ ''$$''))
       = (''<span></span>'' @ malformed @ ''<span></span>'',
          [(malformed, True), ([], False), ([], False)])
   \<and> fst (renderLatex sample_katex (Some (''$$'' @ malformed @ ''$$'')))
       \<noteq> ''$$'' @ malformed @ ''$$''"
  by (simp add: renderLatex_def backslash_def renderMatch_def sample_katex_def malformed_def)

end
